theory Spec2Isabelle
  imports Complex_Main "HOL-Library.Multiset" "HOL-Library.Product_Lexorder"
begin

section \<open>Python values, strings and exceptions\<close>

text \<open>
  The values of Python's \<open>Any\<close> that the scheduler stores (task parameters and task
  results) and the exceptions that the modelled methods raise.
\<close>

datatype pyval =
    PNone
  | PBool bool
  | PInt int
  | PStr string
  | PList "pyval list"

datatype py_exception =
    ValueError string
  | AttributeError string
  | ZeroDivisionError
  | RecursionError
  | Raised string

text \<open>\<open>str(e)\<close> of an exception.\<close>

fun exc_str :: "py_exception \<Rightarrow> string" where
  "exc_str (ValueError m) = m"
| "exc_str (AttributeError m) = m"
| "exc_str ZeroDivisionError = ''float division by zero''"
| "exc_str RecursionError = ''maximum recursion depth exceeded''"
| "exc_str (Raised m) = m"

text \<open>
  \<open>str.lower()\<close> on the ASCII range (a string is a list of bytes here; an upper-case
  letter becomes lower-case by setting the bit of weight 32) and the
  substring test \<open>needle in haystack\<close>.
\<close>

definition char_lower :: "char \<Rightarrow> char" where
  "char_lower c =
     (let n = (of_char c :: nat) in
      if 65 \<le> n \<and> n \<le> 90
      then (case c of Char b0 b1 b2 b3 b4 b5 b6 b7 \<Rightarrow> Char b0 b1 b2 b3 b4 True b6 b7)
      else c)"

definition lower :: "string \<Rightarrow> string" where
  "lower s = map char_lower s"

fun starts_with :: "string \<Rightarrow> string \<Rightarrow> bool" where
  "starts_with [] hay = True"
| "starts_with (n # ns) [] = False"
| "starts_with (n # ns) (h # hs) = (n = h \<and> starts_with ns hs)"

fun py_in :: "string \<Rightarrow> string \<Rightarrow> bool" where
  "py_in needle [] = (needle = [])"
| "py_in needle (h # hs) = (starts_with needle (h # hs) \<or> py_in needle hs)"

text \<open>\<open>any(keyword in text for keyword in keywords)\<close>.\<close>

definition any_keyword :: "string list \<Rightarrow> string \<Rightarrow> bool" where
  "any_keyword keywords text = list_ex (\<lambda>keyword. py_in keyword text) keywords"

section \<open>agent.py: tasks and agents\<close>

datatype AgentStatus = IDLE | BUSY | ERROR | COMPLETED | TERMINATED

datatype TaskPriority = LOW | MEDIUM | HIGH | CRITICAL

text \<open>The \<open>value\<close> of a \<open>TaskPriority\<close> member.\<close>

fun priority_value :: "TaskPriority \<Rightarrow> int" where
  "priority_value LOW = 1"
| "priority_value MEDIUM = 2"
| "priority_value HIGH = 3"
| "priority_value CRITICAL = 4"

text \<open>
  The dataclass \<open>Task\<close>. The field \<open>id\<close> is called \<open>task_id\<close>; timestamps are
  integers (microseconds); \<open>progress\<close> and the time metrics are Python floats, taken
  as reals.
\<close>

record Task =
  task_id :: string
  description :: string
  priority :: TaskPriority
  parameters :: "(string \<times> pyval) list"
  dependencies :: "string list"
  created_at :: int
  assigned_to :: "string option"
  status :: string
  result :: "pyval option"
  error :: "string option"
  progress :: real

text \<open>\<open>Task(id=i, description=d, priority=p, dependencies=ds, parameters=ps)\<close> created at time \<open>now\<close>.\<close>

definition new_Task ::
  "string \<Rightarrow> int \<Rightarrow> string \<Rightarrow> TaskPriority \<Rightarrow> string list \<Rightarrow> (string \<times> pyval) list \<Rightarrow> Task" where
  "new_Task i now d p ds ps =
     \<lparr>task_id = i, description = d, priority = p, parameters = ps, dependencies = ds,
      created_at = now, assigned_to = None, status = ''pending'', result = None,
      error = None, progress = 0\<rparr>"

text \<open>
  Tasks and agents are mutable objects shared between the coordinator's dictionaries,
  its queue and the agents, so they live in a store and are named by address.
  \<open>current_task\<close> is a reference to a task. \<open>capabilities\<close> is what the agent class's
  \<open>get_capabilities()\<close> returns; the four entries of \<open>performance_metrics\<close> are fields.
\<close>

type_synonym tref = nat
type_synonym aref = nat

record BaseAgent =
  agent_id :: string
  name :: string
  agent_status :: AgentStatus
  current_task :: "tref option"
  capabilities :: "string list"
  created :: int
  last_heartbeat :: int
  tasks_completed :: int
  tasks_failed :: int
  total_execution_time :: real
  average_task_time :: real

record heap =
  task_obj :: "tref \<Rightarrow> Task"
  agent_obj :: "aref \<Rightarrow> BaseAgent"
  agent_count :: nat

text \<open>\<open>BaseAgent.__init__\<close> of a subclass with the given name and capabilities.\<close>

definition new_agent :: "string \<Rightarrow> string \<Rightarrow> string list \<Rightarrow> int \<Rightarrow> BaseAgent" where
  "new_agent i n caps now =
     \<lparr>agent_id = i, name = n, agent_status = IDLE, current_task = None, capabilities = caps,
      created = now, last_heartbeat = now, tasks_completed = 0, tasks_failed = 0,
      total_execution_time = 0, average_task_time = 0\<rparr>"

definition set_task :: "heap \<Rightarrow> tref \<Rightarrow> Task \<Rightarrow> heap" where
  "set_task h t v = h\<lparr>task_obj := (task_obj h)(t := v)\<rparr>"

definition set_agent :: "heap \<Rightarrow> aref \<Rightarrow> BaseAgent \<Rightarrow> heap" where
  "set_agent h a v = h\<lparr>agent_obj := (agent_obj h)(a := v)\<rparr>"

text \<open>\<open>BaseAgent.assign_task(self, task)\<close>: the returned flag and the store afterwards.\<close>

definition assign_task :: "heap \<Rightarrow> aref \<Rightarrow> tref \<Rightarrow> bool \<times> heap" where
  "assign_task h a t =
     (if agent_status (agent_obj h a) \<noteq> IDLE then (False, h)
      else
        let h1 = set_agent h a ((agent_obj h a)\<lparr>current_task := Some t\<rparr>);
            h2 = set_agent h1 a ((agent_obj h1 a)\<lparr>agent_status := BUSY\<rparr>);
            h3 = set_task h2 t ((task_obj h2 t)\<lparr>assigned_to := Some (agent_id (agent_obj h2 a))\<rparr>);
            h4 = set_task h3 t ((task_obj h3 t)\<lparr>status := ''in_progress''\<rparr>)
        in (True, h4))"

text \<open>
  What the collaborators called inside the \<open>try\<close> of \<open>execute_task\<close> do
  (\<open>_pre_execution_reasoning\<close>, the subclass's \<open>process_task\<close>, \<open>_post_execution_analysis\<close>):
  all three return, \<open>process_task\<close> with a result, or one of them raises an exception.
\<close>

datatype body_outcome = Returns pyval | Raises py_exception

text \<open>The \<open>except Exception as e\<close> handler of \<open>execute_task\<close>, ending in \<open>raise e\<close>.\<close>

definition task_failure :: "heap \<Rightarrow> aref \<Rightarrow> tref \<Rightarrow> py_exception \<Rightarrow> (py_exception + pyval) \<times> heap" where
  "task_failure h a ct e =
     (let h1 = set_task h ct ((task_obj h ct)\<lparr>error := Some (exc_str e)\<rparr>);
          h2 = set_task h1 ct ((task_obj h1 ct)\<lparr>status := ''failed''\<rparr>);
          h3 = set_agent h2 a ((agent_obj h2 a)\<lparr>agent_status := ERROR\<rparr>);
          h4 = set_agent h3 a ((agent_obj h3 a)\<lparr>tasks_failed := tasks_failed (agent_obj h3 a) + 1\<rparr>)
      in (Inl e, h4))"

text \<open>
  \<open>BaseAgent.execute_task(self)\<close>. \<open>execution_time\<close> is the measured
  \<open>(datetime.now() - start_time).total_seconds()\<close>. The division that recomputes the
  average is inside the \<open>try\<close>: dividing by zero raises into the handler.
\<close>

definition execute_task ::
  "heap \<Rightarrow> aref \<Rightarrow> body_outcome \<Rightarrow> real \<Rightarrow> (py_exception + pyval) \<times> heap" where
  "execute_task h a outcome execution_time =
     (case current_task (agent_obj h a) of
        None \<Rightarrow> (Inl (ValueError ''No task assigned''), h)
      | Some ct \<Rightarrow>
          (case outcome of
             Raises e \<Rightarrow> task_failure h a ct e
           | Returns res \<Rightarrow>
               let h1 = set_task h ct ((task_obj h ct)\<lparr>result := Some res\<rparr>);
                   h2 = set_task h1 ct ((task_obj h1 ct)\<lparr>status := ''completed''\<rparr>);
                   h3 = set_task h2 ct ((task_obj h2 ct)\<lparr>progress := 100\<rparr>);
                   h4 = set_agent h3 a
                          ((agent_obj h3 a)\<lparr>tasks_completed := tasks_completed (agent_obj h3 a) + 1\<rparr>);
                   h5 = set_agent h4 a
                          ((agent_obj h4 a)\<lparr>total_execution_time :=
                             total_execution_time (agent_obj h4 a) + execution_time\<rparr>)
               in if tasks_completed (agent_obj h5 a) = 0 then task_failure h5 a ct ZeroDivisionError
                  else
                    let h6 = set_agent h5 a
                               ((agent_obj h5 a)\<lparr>average_task_time :=
                                  total_execution_time (agent_obj h5 a)
                                    / real_of_int (tasks_completed (agent_obj h5 a))\<rparr>);
                        h7 = set_agent h6 a ((agent_obj h6 a)\<lparr>agent_status := COMPLETED\<rparr>)
                    in (Inr res, h7)))"

text \<open>
  \<open>BaseAgent.terminate(self)\<close>. \<open>ResearchAgent\<close> and \<open>WebScraperAgent\<close> override it: they
  first close \<open>self.scraper\<close> when one is set (\<open>await self.scraper.__aexit__(None, None, None)\<close>)
  and then call this method. The constructors set \<open>scraper\<close> to \<open>None\<close> and only
  \<open>process_task\<close> and the tools it calls set one, so an agent that has not executed a
  task, and with it every idle agent of the coordinator's pool, has no scraper: for it
  the override is this method.
\<close>

definition terminate :: "heap \<Rightarrow> aref \<Rightarrow> heap" where
  "terminate h a = set_agent h a ((agent_obj h a)\<lparr>agent_status := TERMINATED\<rparr>)"

section \<open>swarm.py: the agent factory\<close>

text \<open>
  A Python \<open>dict\<close> keeps its keys in insertion order; it is an association list whose
  keys are distinct. \<open>d[k] = v\<close> replaces the value of a present key in place and
  appends an absent one; \<open>del d[k]\<close> and \<open>d.pop(k, None)\<close> drop the key.
\<close>

fun dict_set :: "'k \<Rightarrow> 'v \<Rightarrow> ('k \<times> 'v) list \<Rightarrow> ('k \<times> 'v) list" where
  "dict_set k v [] = [(k, v)]"
| "dict_set k v (e # d) = (if fst e = k then (k, v) # d else e # dict_set k v d)"

definition dict_del :: "'k \<Rightarrow> ('k \<times> 'v) list \<Rightarrow> ('k \<times> 'v) list" where
  "dict_del k d = filter (\<lambda>e. fst e \<noteq> k) d"

datatype agent_class =
    WebScraperAgent
  | ResearchAgent
  | CodeExecutorAgent
  | TaskOrchestratorAgent
  | DataAnalyzerAgent
  | ContentGeneratorAgent
  | SearchAgent

text \<open>The class name each constructor passes to \<open>BaseAgent.__init__\<close>.\<close>

fun class_name :: "agent_class \<Rightarrow> string" where
  "class_name WebScraperAgent = ''WebScraperAgent''"
| "class_name ResearchAgent = ''ResearchAgent''"
| "class_name CodeExecutorAgent = ''CodeExecutorAgent''"
| "class_name TaskOrchestratorAgent = ''TaskOrchestratorAgent''"
| "class_name DataAnalyzerAgent = ''DataAnalyzerAgent''"
| "class_name ContentGeneratorAgent = ''ContentGeneratorAgent''"
| "class_name SearchAgent = ''SearchAgent''"

text \<open>\<open>get_capabilities()\<close> of each agent class.\<close>

fun get_capabilities :: "agent_class \<Rightarrow> string list" where
  "get_capabilities WebScraperAgent = [''web_scraping'', ''data_extraction'', ''content_fetching'']"
| "get_capabilities ResearchAgent =
     [''research'', ''information_synthesis'', ''data_analysis'', ''search'']"
| "get_capabilities CodeExecutorAgent =
     [''code_execution'', ''script_running'', ''code_generation'', ''file_operations'']"
| "get_capabilities TaskOrchestratorAgent =
     [''task_decomposition'', ''workflow_orchestration'', ''agent_coordination'',
      ''dependency_management'', ''task_prioritization'', ''resource_allocation'',
      ''progress_monitoring'']"
| "get_capabilities DataAnalyzerAgent =
     [''data_analysis'', ''statistical_analysis'', ''data_visualization'',
      ''pattern_recognition'', ''data_cleaning'', ''metrics_calculation'', ''trend_analysis'']"
| "get_capabilities ContentGeneratorAgent =
     [''content_generation'', ''text_writing'', ''article_creation'', ''summary_writing'',
      ''creative_writing'', ''technical_writing'', ''content_planning'']"
| "get_capabilities SearchAgent =
     [''web_search'', ''information_retrieval'', ''source_validation'', ''result_ranking'',
      ''query_optimization'', ''deep_search'', ''fact_finding'']"

text \<open>
  \<open>AgentFactory.create_agent_for_task\<close> returns an instance of the class chosen by the
  keywords of the description; its last branch returns \<open>self.create_generic_agent()\<close>
  without awaiting it, which is a coroutine object and not an agent.
\<close>

datatype factory_result = Instance agent_class | Coroutine

definition create_agent_for_task :: "string \<Rightarrow> factory_result" where
  "create_agent_for_task desc =
     (let task_desc = lower desc in
      if any_keyword [''scrape'', ''crawl'', ''extract'', ''fetch''] task_desc
        then Instance WebScraperAgent
      else if any_keyword [''research'', ''analyze'', ''investigate''] task_desc
        then Instance ResearchAgent
      else if any_keyword [''code'', ''program'', ''script'', ''develop''] task_desc
        then Instance CodeExecutorAgent
      else if any_keyword [''coordinate'', ''organize'', ''manage''] task_desc
        then Instance TaskOrchestratorAgent
      else if any_keyword [''data'', ''statistics'', ''metrics''] task_desc
        then Instance DataAnalyzerAgent
      else if any_keyword [''write'', ''create'', ''generate''] task_desc
        then Instance ContentGeneratorAgent
      else if any_keyword [''search'', ''find'', ''lookup''] task_desc
        then Instance SearchAgent
      else Coroutine)"

text \<open>\<open>AgentFactory.create_generic_agent\<close>, awaited: a researcher.\<close>

definition create_generic_agent :: agent_class where
  "create_generic_agent = ResearchAgent"

text \<open>
  Calling an agent class. \<open>BaseAgent.__init__\<close> ends with \<open>self._initialize_tools()\<close>, which
  every class overrides with a dictionary of its own bound methods.
  \<open>TaskOrchestratorAgent._initialize_tools\<close> reads \<open>self.handle_dependencies\<close>, an attribute
  that no class defines, so the call of this class always raises \<open>AttributeError\<close> and
  yields no object. The other six classes name only methods they define: the new object
  gets the next free address of the store; its id is the \<open>uuid4\<close> string drawn by the
  constructor and its timestamps the clock's reading.
\<close>

definition construct_agent ::
  "heap \<Rightarrow> agent_class \<Rightarrow> string \<Rightarrow> int \<Rightarrow> py_exception + aref \<times> heap" where
  "construct_agent h cls uuid now =
     (if cls = TaskOrchestratorAgent
      then Inl (AttributeError
                  ''TaskOrchestratorAgent object has no attribute handle_dependencies'')
      else Inr (agent_count h,
                h\<lparr>agent_obj := (agent_obj h)(agent_count h :=
                      new_agent uuid (class_name cls) (get_capabilities cls) now),
                  agent_count := Suc (agent_count h)\<rparr>))"

section \<open>swarm.py: the coordinator\<close>

text \<open>
  The coordinator's attributes. \<open>task_queue\<close> is the FIFO queue, head first. Timestamps
  are microseconds and \<open>idle_timeout\<close> is seconds, as in the source.
\<close>

record SwarmCoordinator =
  agents :: "(string \<times> aref) list"
  task_queue :: "tref list"
  completed_tasks :: "(string \<times> tref) list"
  active_tasks :: "(string \<times> tref) list"
  is_running :: bool
  max_agents :: int
  scaling_threshold :: int
  idle_timeout :: int

text \<open>
  The whole system: the coordinator, the store of task and agent objects, the
  \<open>_execute_agent_task\<close> coroutines that \<open>asyncio.create_task\<close> has scheduled and that
  have not finished, and the number of \<open>_process_task_queue\<close> loops that have read
  \<open>is_running\<close> as true and are suspended in \<open>wait_for(self.task_queue.get(), timeout=1.0)\<close>.
\<close>

record system =
  coord :: SwarmCoordinator
  store :: heap
  executions :: "(aref \<times> tref) list"
  polling :: nat

text \<open>\<open>SwarmCoordinator.__init__\<close> with \<open>settings.max_agents = m\<close>, over a store of objects.\<close>

definition init_system :: "int \<Rightarrow> heap \<Rightarrow> system" where
  "init_system m h =
     \<lparr>coord = \<lparr>agents = [], task_queue = [], completed_tasks = [], active_tasks = [],
               is_running = False, max_agents = m, scaling_threshold = 5, idle_timeout = 300\<rparr>,
      store = h, executions = [], polling = 0\<rparr>"

text \<open>
  \<open>start\<close> and \<open>stop\<close>. The three loops that \<open>start\<close> schedules are the loop steps of
  the system below. \<open>stop\<close> calls the \<open>terminate\<close> of every agent of the pool, of
  which the change of status is kept here.
\<close>

definition start :: "system \<Rightarrow> system" where
  "start s = s\<lparr>coord := (coord s)\<lparr>is_running := True\<rparr>\<rparr>"

definition stop :: "system \<Rightarrow> system" where
  "stop s =
     (let s1 = s\<lparr>coord := (coord s)\<lparr>is_running := False\<rparr>\<rparr>
      in s1\<lparr>store := fold (\<lambda>e h. terminate h (snd e)) (agents (coord s1)) (store s1)\<rparr>)"

text \<open>\<open>submit_task(task)\<close>.\<close>

definition submit_task :: "system \<Rightarrow> tref \<Rightarrow> string \<times> system" where
  "submit_task s t =
     (let c1 = (coord s)\<lparr>task_queue := task_queue (coord s) @ [t]\<rparr>;
          c2 = c1\<lparr>active_tasks := dict_set (task_id (task_obj (store s) t)) t (active_tasks c1)\<rparr>
      in (task_id (task_obj (store s) t), s\<lparr>coord := c2\<rparr>))"

text \<open>\<open>_agent_can_handle_task(agent, task)\<close>.\<close>

definition agent_can_handle_task :: "heap \<Rightarrow> aref \<Rightarrow> tref \<Rightarrow> bool" where
  "agent_can_handle_task h a t =
     (let task_desc = lower (description (task_obj h t))
      in list_ex (\<lambda>capability. py_in (lower capability) task_desc) (capabilities (agent_obj h a)))"

text \<open>
  \<open>_get_suitable_agent(task)\<close>: the first idle agent of the pool that can handle the
  task; otherwise, below \<open>max_agents\<close>, a new agent from the factory, added to the
  pool. Reading \<open>.id\<close> of the coroutine object raises \<open>AttributeError\<close>, and so does the
  constructor of the orchestrator class; either exception leaves the method with the
  pool as it was.
\<close>

definition get_suitable_agent ::
  "system \<Rightarrow> tref \<Rightarrow> string \<Rightarrow> int \<Rightarrow> (py_exception + aref option) \<times> system" where
  "get_suitable_agent s t uuid now =
     (case find (\<lambda>e. agent_status (agent_obj (store s) (snd e)) = IDLE
                    \<and> agent_can_handle_task (store s) (snd e) t) (agents (coord s)) of
        Some e \<Rightarrow> (Inr (Some (snd e)), s)
      | None \<Rightarrow>
          if int (length (agents (coord s))) < max_agents (coord s) then
            (case create_agent_for_task (description (task_obj (store s) t)) of
               Coroutine \<Rightarrow>
                 (Inl (AttributeError ''coroutine object has no attribute id''), s)
             | Instance cls \<Rightarrow>
                 (case construct_agent (store s) cls uuid now of
                    Inl e \<Rightarrow> (Inl e, s)
                  | Inr (a, h1) \<Rightarrow>
                      let c1 = (coord s)\<lparr>agents :=
                                 dict_set (agent_id (agent_obj h1 a)) a (agents (coord s))\<rparr>
                      in (Inr (Some a), s\<lparr>coord := c1, store := h1\<rparr>)))
          else (Inr None, s))"

text \<open>
  The body of the loop of \<open>_process_task_queue\<close>, from the return of \<open>wait_for\<close>. With
  an empty queue the \<open>wait_for\<close> times out and nothing changes. Otherwise the head task is
  taken; with an agent it is assigned and its execution is scheduled; without one it
  goes back to the tail of the queue; an exception is logged, with the task already
  taken: the task is in no queue any more and stays in the active tasks.
\<close>

definition process_task_queue :: "system \<Rightarrow> string \<Rightarrow> int \<Rightarrow> system" where
  "process_task_queue s uuid now =
     (case task_queue (coord s) of
        [] \<Rightarrow> s
      | t # q \<Rightarrow>
          let s1 = s\<lparr>coord := (coord s)\<lparr>task_queue := q\<rparr>\<rparr> in
          (case get_suitable_agent s1 t uuid now of
             (Inl e, s2) \<Rightarrow> s2
           | (Inr (Some a), s2) \<Rightarrow>
               let (accepted, h1) = assign_task (store s2) a t
               in s2\<lparr>store := h1, executions := executions s2 @ [(a, t)]\<rparr>
           | (Inr None, s2) \<Rightarrow>
               s2\<lparr>coord := (coord s2)\<lparr>task_queue := task_queue (coord s2) @ [t]\<rparr>\<rparr>))"

text \<open>
  \<open>_execute_agent_task(agent, task)\<close>, run to its end: \<open>execute_task\<close> of the agent, then
  the task is recorded as completed and dropped from the active tasks, after a result
  as well as after an exception.
\<close>

definition execute_agent_task :: "system \<Rightarrow> aref \<Rightarrow> tref \<Rightarrow> body_outcome \<Rightarrow> real \<Rightarrow> system" where
  "execute_agent_task s a t outcome execution_time =
     (let (r, h1) = execute_task (store s) a outcome execution_time;
          h2 = (case r of
                  Inr res \<Rightarrow> set_task h1 t ((task_obj h1 t)\<lparr>result := Some res\<rparr>)
                | Inl e \<Rightarrow> set_task h1 t ((task_obj h1 t)\<lparr>error := Some (exc_str e)\<rparr>));
          c1 = (coord s)\<lparr>completed_tasks :=
                  dict_set (task_id (task_obj h2 t)) t (completed_tasks (coord s))\<rparr>;
          c2 = c1\<lparr>active_tasks := dict_del (task_id (task_obj h2 t)) (active_tasks c1)\<rparr>
      in s\<lparr>coord := c2, store := h2, executions := remove1 (a, t) (executions s)\<rparr>)"

text \<open>
  One sweep of \<open>_monitor_agents\<close> at time \<open>current_time\<close>: the ids of the idle agents whose
  heartbeat is older than \<open>idle_timeout\<close> seconds are collected, then each is looked up,
  terminated and deleted from the pool. A missing key raises \<open>KeyError\<close>, which ends the
  sweep where it stands (the exception is logged).
\<close>

definition agents_to_remove :: "system \<Rightarrow> int \<Rightarrow> string list" where
  "agents_to_remove s current_time =
     map fst (filter (\<lambda>e. agent_status (agent_obj (store s) (snd e)) = IDLE
                         \<and> current_time - last_heartbeat (agent_obj (store s) (snd e))
                             > idle_timeout (coord s) * 1000000)
                (agents (coord s)))"

fun remove_agents :: "string list \<Rightarrow> system \<Rightarrow> system" where
  "remove_agents [] s = s"
| "remove_agents (i # ids) s =
     (case map_of (agents (coord s)) i of
        None \<Rightarrow> s
      | Some a \<Rightarrow>
          remove_agents ids
            (s\<lparr>store := terminate (store s) a,
               coord := (coord s)\<lparr>agents := dict_del i (agents (coord s))\<rparr>\<rparr>))"

definition monitor_agents :: "system \<Rightarrow> int \<Rightarrow> system" where
  "monitor_agents s current_time = remove_agents (agents_to_remove s current_time) s"

text \<open>
  One sweep of \<open>_auto_scale\<close>. \<open>uuids k\<close> is the id drawn by the constructor of the
  \<open>k\<close>-th agent the sweep creates. An exception of the constructor ends the sweep where
  it stands (the exception is logged).
\<close>

fun create_agents :: "nat \<Rightarrow> (nat \<Rightarrow> string) \<Rightarrow> int \<Rightarrow> system \<Rightarrow> system" where
  "create_agents 0 uuids now s = s"
| "create_agents (Suc n) uuids now s =
     (case construct_agent (store s) create_generic_agent (uuids 0) now of
        Inl e \<Rightarrow> s
      | Inr (a, h1) \<Rightarrow>
          let c1 = (coord s)\<lparr>agents := dict_set (agent_id (agent_obj h1 a)) a (agents (coord s))\<rparr>
          in create_agents n (\<lambda>k. uuids (Suc k)) now (s\<lparr>coord := c1, store := h1\<rparr>))"

definition num_to_create :: "system \<Rightarrow> int" where
  "num_to_create s =
     min (int (length (task_queue (coord s))) - scaling_threshold (coord s))
         (max_agents (coord s) - int (length (agents (coord s))))"

definition auto_scale :: "system \<Rightarrow> (nat \<Rightarrow> string) \<Rightarrow> int \<Rightarrow> system" where
  "auto_scale s uuids now =
     (let queue_size = int (length (task_queue (coord s))) in
      if queue_size > scaling_threshold (coord s)
         \<and> int (length (agents (coord s))) < max_agents (coord s)
      then create_agents (nat (num_to_create s)) uuids now s
      else s)"

text \<open>
  The system moves by these steps, each of which runs without suspension: the public
  \<open>start\<close>, \<open>stop\<close> and \<open>submit_task\<close>, the steps of the three loops, and the end of a
  scheduled execution. A loop reads \<open>is_running\<close> at the head of each iteration. The
  monitor and the auto-scaler run their sweep right after this test. The dispatch loop
  suspends in \<open>wait_for\<close> after the test (\<open>poll\<close>) and runs the body of its iteration
  when \<open>wait_for\<close> returns (\<open>dispatch\<close>), whatever \<open>is_running\<close> has become in between:
  a task can be dispatched, and an agent created for it, after \<open>stop\<close>.
\<close>

definition poll :: "system \<Rightarrow> system" where
  "poll s = s\<lparr>polling := Suc (polling s)\<rparr>"

definition dispatch :: "system \<Rightarrow> string \<Rightarrow> int \<Rightarrow> system" where
  "dispatch s uuid now = (process_task_queue s uuid now)\<lparr>polling := polling s - 1\<rparr>"

inductive step :: "system \<Rightarrow> system \<Rightarrow> bool" where
  step_start: "step s (start s)"
| step_stop: "step s (stop s)"
| step_submit: "step s (snd (submit_task s t))"
| step_poll: "is_running (coord s) \<Longrightarrow> step s (poll s)"
| step_dispatch: "0 < polling s \<Longrightarrow> step s (dispatch s uuid now)"
| step_execute: "(a, t) \<in> set (executions s) \<Longrightarrow> step s (execute_agent_task s a t outcome dt)"
| step_monitor: "is_running (coord s) \<Longrightarrow> step s (monitor_agents s now)"
| step_scale: "is_running (coord s) \<Longrightarrow> step s (auto_scale s uuids now)"

definition reachable :: "int \<Rightarrow> heap \<Rightarrow> system \<Rightarrow> bool" where
  "reachable m h s = step\<^sup>*\<^sup>* (init_system m h) s"

section \<open>orchestrator.py: decomposition\<close>

text \<open>
  Every \<open>Task(...)\<close> built by a template draws its id with \<open>uuid4\<close> and its \<open>created_at\<close>
  from the clock: \<open>uuid k\<close> and \<open>now k\<close> are what the \<open>k\<close>-th construction of a call gets.
  A description is the f-string's prefix followed by the description of the input task.
\<close>

definition decompose_research_task :: "(nat \<Rightarrow> string) \<Rightarrow> (nat \<Rightarrow> int) \<Rightarrow> Task \<Rightarrow> Task list" where
  "decompose_research_task uuid now task =
     (let search_task = new_Task (uuid 0) (now 0)
            (''Search for information: '' @ description task) HIGH []
            [(''query'', PStr (description task)), (''num_results'', PInt 10)];
          analysis_task = new_Task (uuid 1) (now 1)
            (''Analyze research findings for: '' @ description task) MEDIUM [task_id search_task]
            [(''depth'', PInt 2), (''analyze_sources'', PBool True)];
          summary_task = new_Task (uuid 2) (now 2)
            (''Summarize research on: '' @ description task) MEDIUM [task_id analysis_task]
            [(''max_length'', PInt 500)]
      in [search_task, analysis_task, summary_task])"

definition decompose_development_task :: "(nat \<Rightarrow> string) \<Rightarrow> (nat \<Rightarrow> int) \<Rightarrow> Task \<Rightarrow> Task list" where
  "decompose_development_task uuid now task =
     (let requirements_task = new_Task (uuid 0) (now 0)
            (''Analyze requirements for: '' @ description task) HIGH []
            [(''analysis_type'', PStr ''requirements'')];
          design_task = new_Task (uuid 1) (now 1)
            (''Design solution for: '' @ description task) HIGH [task_id requirements_task]
            [(''design_level'', PStr ''high_level'')];
          impl_task = new_Task (uuid 2) (now 2)
            (''Implement: '' @ description task) HIGH [task_id design_task]
            [(''language'', PStr ''python''), (''include_tests'', PBool True)];
          test_task = new_Task (uuid 3) (now 3)
            (''Test implementation of: '' @ description task) MEDIUM [task_id impl_task]
            [(''test_type'', PStr ''automated'')]
      in [requirements_task, design_task, impl_task, test_task])"

definition decompose_scraping_task :: "(nat \<Rightarrow> string) \<Rightarrow> (nat \<Rightarrow> int) \<Rightarrow> Task \<Rightarrow> Task list" where
  "decompose_scraping_task uuid now task =
     (let target_task = new_Task (uuid 0) (now 0)
            (''Identify scraping targets for: '' @ description task) HIGH []
            [(''target_type'', PStr ''websites'')];
          scrape_task = new_Task (uuid 1) (now 1)
            (''Scrape data for: '' @ description task) HIGH [task_id target_task]
            [(''use_selenium'', PBool False), (''extract_links'', PBool True)];
          process_task = new_Task (uuid 2) (now 2)
            (''Process scraped data for: '' @ description task) MEDIUM [task_id scrape_task]
            [(''processing_type'', PStr ''cleaning_and_structuring'')]
      in [target_task, scrape_task, process_task])"

definition decompose_content_task :: "(nat \<Rightarrow> string) \<Rightarrow> (nat \<Rightarrow> int) \<Rightarrow> Task \<Rightarrow> Task list" where
  "decompose_content_task uuid now task =
     (let research_task = new_Task (uuid 0) (now 0)
            (''Research content for: '' @ description task) HIGH []
            [(''content_research'', PBool True)];
          generate_task = new_Task (uuid 1) (now 1)
            (''Generate content: '' @ description task) HIGH [task_id research_task]
            [(''content_type'', PStr ''article''), (''word_count'', PInt 1000)];
          review_task = new_Task (uuid 2) (now 2)
            (''Review and refine content: '' @ description task) MEDIUM [task_id generate_task]
            [(''review_type'', PStr ''quality_check'')]
      in [research_task, generate_task, review_task])"

definition decompose_generic_task :: "(nat \<Rightarrow> string) \<Rightarrow> (nat \<Rightarrow> int) \<Rightarrow> Task \<Rightarrow> Task list" where
  "decompose_generic_task uuid now task =
     (let analysis_task = new_Task (uuid 0) (now 0)
            (''Analyze task: '' @ description task) HIGH []
            [(''analysis_depth'', PStr ''medium'')];
          execute_task = new_Task (uuid 1) (now 1)
            (''Execute task: '' @ description task) HIGH [task_id analysis_task] [];
          validate_task = new_Task (uuid 2) (now 2)
            (''Validate results: '' @ description task) MEDIUM [task_id execute_task]
            [(''validation_type'', PStr ''quality_check'')]
      in [analysis_task, execute_task, validate_task])"

text \<open>
  The slice \<open>xs[:n]\<close> of a list: the first \<open>n\<close> elements, and for a negative \<open>n\<close> all but
  the last \<open>-n\<close>.
\<close>

definition py_slice_to :: "'a list \<Rightarrow> int \<Rightarrow> 'a list" where
  "py_slice_to xs n = (if 0 \<le> n then take (nat n) xs else take (nat (int (length xs) + n)) xs)"

text \<open>\<open>decompose_task(task, max_subtasks)\<close>.\<close>

definition decompose_task ::
  "(nat \<Rightarrow> string) \<Rightarrow> (nat \<Rightarrow> int) \<Rightarrow> Task \<Rightarrow> int \<Rightarrow> Task list" where
  "decompose_task uuid now task max_subtasks =
     (let desc = lower (description task);
          subtasks =
            (if any_keyword [''research'', ''analyze'', ''investigate''] desc
               then decompose_research_task uuid now task
             else if any_keyword [''build'', ''create'', ''develop'', ''code''] desc
               then decompose_development_task uuid now task
             else if any_keyword [''scrape'', ''extract'', ''collect''] desc
               then decompose_scraping_task uuid now task
             else if any_keyword [''write'', ''generate'', ''content''] desc
               then decompose_content_task uuid now task
             else decompose_generic_task uuid now task)
      in py_slice_to subtasks max_subtasks)"

section \<open>orchestrator.py: priorities\<close>

text \<open>
  \<open>assign_priorities(workflow)\<close> changes the task objects in place, so the workflow is a
  list of references into the store. The loop is \<open>for i, task in enumerate(workflow)\<close>
  with \<open>n = len(workflow)\<close>; \<open>2 * len(workflow) // 3\<close> is \<open>(2 * n) div 3\<close>.
\<close>

fun assign_priorities_loop :: "nat \<Rightarrow> nat \<Rightarrow> tref list \<Rightarrow> heap \<Rightarrow> heap" where
  "assign_priorities_loop n i [] h = h"
| "assign_priorities_loop n i (task # rest) h =
     assign_priorities_loop n (Suc i) rest
       (if priority (task_obj h task) = MEDIUM then
          (if i < n div 3 then set_task h task ((task_obj h task)\<lparr>priority := HIGH\<rparr>)
           else if i > 2 * n div 3 then set_task h task ((task_obj h task)\<lparr>priority := LOW\<rparr>)
           else h)
        else h)"

text \<open>
  The sort key \<open>(-t.priority.value, len(t.dependencies))\<close>; tuples compare
  lexicographically and \<open>sorted\<close> is stable, as \<open>sort_key\<close> is.
\<close>

definition priority_key :: "heap \<Rightarrow> tref \<Rightarrow> int \<times> nat" where
  "priority_key h t =
     (- priority_value (priority (task_obj h t)), length (dependencies (task_obj h t)))"

definition assign_priorities :: "heap \<Rightarrow> tref list \<Rightarrow> tref list \<times> heap" where
  "assign_priorities h workflow =
     (let h1 = assign_priorities_loop (length workflow) 0 workflow h
      in (sort_key (priority_key h1) workflow, h1))"

section \<open>orchestrator.py: the execution plan\<close>

text \<open>
  \<open>generate_execution_plan(tasks)\<close> reads the tasks and changes none, and
  \<open>remaining.remove(task)\<close> drops the first element equal to \<open>task\<close> (a dataclass compares
  by its fields), so the tasks are taken by value here.

  One pass of the inner loop \<open>for task in remaining[:]\<close>: the first argument is what is
  left of the copy, \<open>remaining\<close> is the live list, which the pass itself shortens, and the
  test of a task's dependencies reads the ids of the live list.
\<close>

fun level_pass ::
  "Task list \<Rightarrow> Task list \<Rightarrow> Task list \<Rightarrow> py_exception + (Task list \<times> Task list)" where
  "level_pass [] current_level remaining = Inr (current_level, remaining)"
| "level_pass (task # rest) current_level remaining =
     (if list_all (\<lambda>dep. dep \<notin> set (map task_id remaining)) (dependencies task) then
        (if task \<in> set remaining
         then level_pass rest (current_level @ [task]) (remove1 task remaining)
         else Inl (ValueError ''list.remove(x): x not in list''))
      else level_pass rest current_level remaining)"

lemma level_pass_length:
  "level_pass copy current_level remaining = Inr (current_level', remaining') \<Longrightarrow>
   length current_level' + length remaining' = length current_level + length remaining"
proof (induction copy arbitrary: current_level remaining)
  case Nil
  then show ?case by simp
next
  case (Cons task rest)
  show ?case
  proof (cases "list_all (\<lambda>dep. dep \<notin> set (map task_id remaining)) (dependencies task)")
    case False
    with Cons show ?thesis by simp
  next
    case True
    with Cons.prems have mem: "task \<in> set remaining"
      by (auto split: if_splits)
    with True Cons.prems
    have "level_pass rest (current_level @ [task]) (remove1 task remaining)
            = Inr (current_level', remaining')"
      by simp
    from Cons.IH [OF this] mem show ?thesis
      by (simp add: length_remove1) (metis Suc_pred length_pos_if_in_set)
  qed
qed

text \<open>
  The loop \<open>while remaining:\<close>. A pass that extracted something appends its level and
  goes on; a pass that extracted nothing appends what remains as one level and breaks.
\<close>

function level_loop :: "Task list list \<Rightarrow> Task list \<Rightarrow> py_exception + Task list list" where
  "level_loop levels remaining =
     (if remaining = [] then Inr levels
      else
        (case level_pass remaining [] remaining of
           Inl e \<Rightarrow> Inl e
         | Inr (current_level, remaining') \<Rightarrow>
             if current_level \<noteq> [] then level_loop (levels @ [current_level]) remaining'
             else Inr (levels @ [remaining'])))"
  by pat_completeness auto
termination
proof (relation "measure (\<lambda>(levels, remaining). length remaining)")
  show "wf (measure (\<lambda>(levels, remaining). length remaining))"
    by simp
next
  fix levels remaining :: "Task list" and x2 :: "Task list \<times> Task list"
    and current_level remaining' :: "Task list" and levels' :: "Task list list"
  assume "level_pass remaining [] remaining = Inr x2" "(current_level, remaining') = x2"
    "current_level \<noteq> []"
  then have "length current_level + length remaining' = length remaining"
    using level_pass_length [of remaining "[]" remaining current_level remaining'] by simp
  with \<open>current_level \<noteq> []\<close>
  show "((levels' @ [current_level], remaining'), (levels', remaining))
          \<in> measure (\<lambda>(levels, remaining). length remaining)"
    by (cases current_level) simp_all
qed

text \<open>Which exit the loop takes: whether it ends in the branch that breaks.\<close>

function catch_all_phase :: "Task list \<Rightarrow> bool" where
  "catch_all_phase remaining =
     (if remaining = [] then False
      else
        (case level_pass remaining [] remaining of
           Inl e \<Rightarrow> False
         | Inr (current_level, remaining') \<Rightarrow>
             if current_level \<noteq> [] then catch_all_phase remaining' else True))"
  by pat_completeness auto
termination
proof (relation "measure length")
  show "wf (measure length)"
    by simp
next
  fix remaining :: "Task list" and x2 :: "Task list \<times> Task list"
    and current_level remaining' :: "Task list"
  assume "level_pass remaining [] remaining = Inr x2" "(current_level, remaining') = x2"
    "current_level \<noteq> []"
  then have "length current_level + length remaining' = length remaining"
    using level_pass_length [of remaining "[]" remaining current_level remaining'] by simp
  with \<open>current_level \<noteq> []\<close> show "(remaining', remaining) \<in> measure length"
    by (cases current_level) simp_all
qed

declare level_loop.simps [simp del]
declare catch_all_phase.simps [simp del]

text \<open>The plan dictionary and the dictionaries of its \<open>phases\<close> list.\<close>

record phase_entry =
  phase :: int
  tasks :: "string list"
  can_run_parallel :: bool

record plan =
  total_tasks :: int
  phases :: "phase_entry list"
  parallel_tasks :: "string list"
  critical_path :: "string list"

definition phase_entries :: "Task list list \<Rightarrow> phase_entry list" where
  "phase_entries levels =
     map (\<lambda>(i, level). \<lparr>phase = int i + 1, tasks = map description level,
                         can_run_parallel = (length level > 1)\<rparr>)
       (enumerate 0 levels)"

definition generate_execution_plan :: "Task list \<Rightarrow> py_exception + plan" where
  "generate_execution_plan tasks_in =
     (case level_loop [] tasks_in of
        Inl e \<Rightarrow> Inl e
      | Inr levels \<Rightarrow>
          Inr \<lparr>total_tasks = int (length tasks_in), phases = phase_entries levels,
               parallel_tasks = [], critical_path = []\<rparr>)"

section \<open>The pool invariant\<close>


text \<open>The system with the \<open>dependencies\<close> of the task object at \<open>r\<close> replaced by \<open>ds\<close>.\<close>

definition with_dependencies :: "system \<Rightarrow> tref \<Rightarrow> string list \<Rightarrow> system" where
  "with_dependencies s r ds =
     s\<lparr>store := set_task (store s) r ((task_obj (store s) r)\<lparr>dependencies := ds\<rparr>)\<rparr>"

text \<open>
  A list of sub-tasks built from the ids \<open>uuid 0, uuid 1, \<dots>\<close> in which every
  dependency of a sub-task is the id of a sub-task before it; a template has at most four.
\<close>

definition backwards :: "(nat \<Rightarrow> string) \<Rightarrow> Task list \<Rightarrow> bool" where
  "backwards uuid xs \<longleftrightarrow>
     (\<forall>i < length xs. set (dependencies (xs ! i)) \<subseteq> task_id ` set (take i xs))
     \<and> map task_id xs = map uuid [0..<length xs]
     \<and> length xs \<le> 4"


text \<open>
  What the loop, started at index \<open>i\<close> on the rest \<open>ts\<close> of a workflow of length \<open>n\<close>, does to
  the task object at \<open>r\<close>: it changes at most the priority, and only of a task whose
  priority is \<open>MEDIUM\<close>. The same object may occur at several positions.
\<close>

definition loop_priority :: "nat \<Rightarrow> nat \<Rightarrow> tref list \<Rightarrow> heap \<Rightarrow> tref \<Rightarrow> TaskPriority" where
  "loop_priority n i ts h r =
     (if priority (task_obj h r) \<noteq> MEDIUM then priority (task_obj h r)
      else if \<exists>j < length ts. ts ! j = r \<and> i + j < n div 3 then HIGH
      else if \<exists>j < length ts. ts ! j = r \<and> i + j > 2 * n div 3 then LOW
      else MEDIUM)"


section \<open>Example states\<close>

text \<open>
  A store with two tasks, the second depending on the first, and two agents: an idle
  researcher and a searcher busy with the second task; and a coordinator over it.
\<close>

definition example_tasks :: "tref \<Rightarrow> Task" where
  "example_tasks r =
     (if r = 0 then new_Task ''t0'' 0 ''research quantum computing trends'' MEDIUM [] []
      else new_Task ''t1'' 0 ''search for related work'' MEDIUM [''t0''] [])"

definition example_agents :: "aref \<Rightarrow> BaseAgent" where
  "example_agents r =
     (if r = 0 then new_agent ''a0'' (class_name ResearchAgent) (get_capabilities ResearchAgent) 0
      else (new_agent ''a1'' (class_name SearchAgent) (get_capabilities SearchAgent) 0)
             \<lparr>agent_status := BUSY, current_task := Some 1\<rparr>)"

definition example_heap :: heap where
  "example_heap = \<lparr>task_obj = example_tasks, agent_obj = example_agents, agent_count = 2\<rparr>"

definition example_system :: system where
  "example_system =
     \<lparr>coord = \<lparr>agents = [(''a0'', 0), (''a1'', 1)], task_queue = [0],
               completed_tasks = [], active_tasks = [(''t0'', 0), (''t1'', 1)],
               is_running = True, max_agents = 100, scaling_threshold = 5, idle_timeout = 300\<rparr>,
      store = example_heap, executions = [(1, 1)], polling = 1\<rparr>"

text \<open>The example system after the execution of the busy agent's task has raised.\<close>

definition failed_system :: system where
  "failed_system = execute_agent_task example_system 1 1 (Raises (Raised ''boom'')) 3"

text \<open>
  A coordinator with \<open>max_agents = 2\<close> over a store in which no agent has been
  constructed yet, started, with seven submitted tasks in its queue, and the state after
  one auto-scale sweep.
\<close>

definition initial_heap :: heap where
  "initial_heap = \<lparr>task_obj = example_tasks, agent_obj = example_agents, agent_count = 0\<rparr>"





text \<open>
  Two runs of a coordinator with \<open>max_agents = 100\<close>. In both the first task is submitted
  and dispatched to a new agent by an iteration of the dispatch loop, and once its
  execution has ended the second task, which depends on the first, is submitted and
  dispatched by the next iteration. In \<open>failed_dependency_run\<close> the first task's body
  raises; in \<open>completed_run\<close> it returns.
\<close>

definition run_with :: "body_outcome \<Rightarrow> system" where
  "run_with outcome =
     (let s0 = start (init_system 100 initial_heap);
          s1 = snd (submit_task s0 0);
          s2 = dispatch (poll s1) ''u0'' 0;
          s3 = execute_agent_task s2 0 0 outcome 1;
          s4 = snd (submit_task s3 1)
      in dispatch (poll s4) ''u1'' 2)"

definition failed_dependency_run :: system where
  "failed_dependency_run = run_with (Raises (Raised ''boom''))"

definition completed_run :: system where
  "completed_run = run_with (Returns (PStr ''done''))"

text \<open>
  A run in which the dispatch loop has read \<open>is_running\<close> and waits for a task when the
  coordinator is stopped; a task submitted afterwards is dispatched all the same.
\<close>

definition late_dispatch_run :: system where
  "late_dispatch_run =
     (let s0 = start (init_system 100 initial_heap);
          s1 = stop (poll s0);
          s2 = snd (submit_task s1 0)
      in dispatch s2 ''u0'' 0)"

text \<open>
  A run over a store whose task asks for coordination, so that the factory calls the
  orchestrator class.
\<close>

definition orchestration_heap :: heap where
  "orchestration_heap =
     \<lparr>task_obj = (\<lambda>r. new_Task ''c0'' 0 ''coordinate the release'' MEDIUM [] []),
      agent_obj = example_agents, agent_count = 0\<rparr>"

definition orchestration_run :: system where
  "orchestration_run =
     (let s0 = start (init_system 100 orchestration_heap);
          s1 = snd (submit_task s0 0)
      in dispatch (poll s1) ''u0'' 0)"

text \<open>
  Task lists for the leveling: \<open>task_b\<close> depends on \<open>task_a\<close>; \<open>cyclic_a\<close> and \<open>cyclic_b\<close>
  depend on each other; \<open>self_dependent\<close> names itself, and \<open>independent\<close> is the same task
  without the dependency.
\<close>

definition task_a :: Task where
  "task_a = new_Task ''a'' 0 ''first'' MEDIUM [] []"

definition task_b :: Task where
  "task_b = new_Task ''b'' 0 ''second'' MEDIUM [''a''] []"

definition cyclic_a :: Task where
  "cyclic_a = new_Task ''a'' 0 ''first'' MEDIUM [''b''] []"

definition cyclic_b :: Task where
  "cyclic_b = new_Task ''b'' 0 ''second'' MEDIUM [''a''] []"

definition self_dependent :: Task where
  "self_dependent = new_Task ''a'' 0 ''first'' MEDIUM [''a''] []"

definition independent :: Task where
  "independent = new_Task ''a'' 0 ''first'' MEDIUM [] []"

text \<open>The ids and the clock of a call of \<open>decompose_task\<close>, and the spec's research task.\<close>

definition example_uuid :: "nat \<Rightarrow> string" where
  "example_uuid k = (if k = 0 then ''s0'' else if k = 1 then ''s1'' else if k = 2 then ''s2'' else ''s3'')"

definition example_clock :: "nat \<Rightarrow> int" where
  "example_clock k = int k"

definition research_task :: Task where
  "research_task = new_Task ''r'' 0 ''research quantum computing trends'' MEDIUM [] []"

text \<open>
  A store for \<open>assign_priorities\<close>: the task at address 2 has an explicit priority, the
  others have the default.
\<close>

definition priority_tasks :: "tref \<Rightarrow> Task" where
  "priority_tasks r =
     (if r = 2 then new_Task ''p2'' 0 ''deploy'' CRITICAL [''p0'', ''p1''] []
      else if r = 1 then new_Task ''p1'' 0 ''build'' MEDIUM [''p0''] []
      else new_Task ''p'' 0 ''step'' MEDIUM [] [])"

definition priority_heap :: heap where
  "priority_heap = \<lparr>task_obj = priority_tasks, agent_obj = example_agents, agent_count = 0\<rparr>"

section \<open>Properties of the agent\<close>

text \<open>
  Claim C3. For every agent and task, \<open>assign_task\<close> returns true if and only if the
  agent's status is idle. On success the agent is busy, its current task is the task, the
  task is in progress and assigned to the agent's id. When the agent is not idle the
  call returns false and the store, hence the agent and the task, is unchanged.
\<close>

theorem assign_task_idle_only:
  "(fst (assign_task h a t) \<longleftrightarrow> agent_status (agent_obj h a) = IDLE)
   \<and> (agent_status (agent_obj h a) = IDLE \<longrightarrow>
        agent_status (agent_obj (snd (assign_task h a t)) a) = BUSY
      \<and> current_task (agent_obj (snd (assign_task h a t)) a) = Some t
      \<and> status (task_obj (snd (assign_task h a t)) t) = ''in_progress''
      \<and> assigned_to (task_obj (snd (assign_task h a t)) t) = Some (agent_id (agent_obj h a)))
   \<and> (agent_status (agent_obj h a) \<noteq> IDLE \<longrightarrow> assign_task h a t = (False, h))"
  by (simp add: assign_task_def set_agent_def set_task_def Let_def)

theorem assign_task_idle_only_witness:
  "agent_status (agent_obj example_heap 0) = IDLE
   \<and> fst (assign_task example_heap 0 0)
   \<and> agent_status (agent_obj (snd (assign_task example_heap 0 0)) 0) = BUSY
   \<and> current_task (agent_obj (snd (assign_task example_heap 0 0)) 0) = Some 0
   \<and> status (task_obj (snd (assign_task example_heap 0 0)) 0) = ''in_progress''
   \<and> assigned_to (task_obj (snd (assign_task example_heap 0 0)) 0) = Some ''a0''
   \<and> agent_status (agent_obj example_heap 1) = BUSY
   \<and> assign_task example_heap 1 0 = (False, example_heap)"
proof -
  have idle: "agent_status (agent_obj example_heap 0) = IDLE"
    and busy: "agent_status (agent_obj example_heap 1) = BUSY"
    and ident: "agent_id (agent_obj example_heap 0) = ''a0''"
    by (simp_all add: example_heap_def example_agents_def new_agent_def)
  show ?thesis
    using idle busy ident assign_task_idle_only [of example_heap 0 0]
      assign_task_idle_only [of example_heap 1 0]
    by simp
qed

text \<open>
  Claim C4. For every agent with an assigned current task: when \<open>execute_task\<close> returns
  a result, the task has that result, status completed and progress 100, the agent's
  status is completed, \<open>tasks_completed\<close> is one more, the execution time is added to the
  total, and the average is the total divided by \<open>tasks_completed\<close>. When it fails, the
  task has the error and status failed, the agent's status is error, \<open>tasks_failed\<close> is one
  more, and the exception is raised to the caller: an exception of the task body comes
  out as it is, and a returning body gives the result unless the division fails.
\<close>

theorem execute_task_outcomes:
  assumes "current_task (agent_obj h a) = Some ct"
  shows "(case execute_task h a outcome dt of
      (Inr res, h') \<Rightarrow>
          outcome = Returns res
        \<and> result (task_obj h' ct) = Some res
        \<and> status (task_obj h' ct) = ''completed''
        \<and> progress (task_obj h' ct) = 100
        \<and> agent_status (agent_obj h' a) = COMPLETED
        \<and> tasks_completed (agent_obj h' a) = tasks_completed (agent_obj h a) + 1
        \<and> total_execution_time (agent_obj h' a) = total_execution_time (agent_obj h a) + dt
        \<and> average_task_time (agent_obj h' a)
            = total_execution_time (agent_obj h' a) / real_of_int (tasks_completed (agent_obj h' a))
    | (Inl e, h') \<Rightarrow>
          error (task_obj h' ct) = Some (exc_str e)
        \<and> status (task_obj h' ct) = ''failed''
        \<and> agent_status (agent_obj h' a) = ERROR
        \<and> tasks_failed (agent_obj h' a) = tasks_failed (agent_obj h a) + 1)
    \<and> (\<forall>e. outcome = Raises e \<longrightarrow> fst (execute_task h a outcome dt) = Inl e)
    \<and> (\<forall>res. outcome = Returns res \<and> tasks_completed (agent_obj h a) + 1 \<noteq> 0
          \<longrightarrow> fst (execute_task h a outcome dt) = Inr res)"
  using assms
  by (auto simp: execute_task_def task_failure_def set_agent_def set_task_def Let_def
           split: body_outcome.splits)

theorem execute_task_outcomes_witness:
  "current_task (agent_obj example_heap 1) = Some 1
   \<and> fst (execute_task example_heap 1 (Returns (PStr ''done'')) 3) = Inr (PStr ''done'')
   \<and> result (task_obj (snd (execute_task example_heap 1 (Returns (PStr ''done'')) 3)) 1)
       = Some (PStr ''done'')
   \<and> status (task_obj (snd (execute_task example_heap 1 (Returns (PStr ''done'')) 3)) 1)
       = ''completed''
   \<and> agent_status (agent_obj (snd (execute_task example_heap 1 (Returns (PStr ''done'')) 3)) 1)
       = COMPLETED
   \<and> average_task_time (agent_obj (snd (execute_task example_heap 1 (Returns (PStr ''done'')) 3)) 1)
       = 3
   \<and> fst (execute_task example_heap 1 (Raises (Raised ''boom'')) 3) = Inl (Raised ''boom'')
   \<and> error (task_obj (snd (execute_task example_heap 1 (Raises (Raised ''boom'')) 3)) 1)
       = Some ''boom''
   \<and> status (task_obj (snd (execute_task example_heap 1 (Raises (Raised ''boom'')) 3)) 1)
       = ''failed''
   \<and> agent_status (agent_obj (snd (execute_task example_heap 1 (Raises (Raised ''boom'')) 3)) 1)
       = ERROR
   \<and> tasks_failed (agent_obj (snd (execute_task example_heap 1 (Raises (Raised ''boom'')) 3)) 1)
       = 1"
proof -
  have c: "current_task (agent_obj example_heap 1) = Some 1"
    and m: "tasks_completed (agent_obj example_heap 1) = 0"
      "total_execution_time (agent_obj example_heap 1) = 0"
      "tasks_failed (agent_obj example_heap 1) = 0"
    by (simp_all add: example_heap_def example_agents_def new_agent_def)
  show ?thesis
    using c m execute_task_outcomes [OF c, of "Returns (PStr ''done'')" 3]
      execute_task_outcomes [OF c, of "Raises (Raised ''boom'')" 3]
    by (auto split: prod.splits sum.splits)
qed

section \<open>Properties of the coordinator\<close>

subsection \<open>Dictionaries\<close>



lemma map_of_dict_set: "map_of (dict_set k v d) k = Some v"
  by (induction d) auto


lemma dict_del_keys: "map fst (dict_del k d) = filter (\<lambda>x. x \<noteq> k) (map fst d)"
  by (induction d) (auto simp: dict_del_def)

lemma dict_del_keys_set: "fst ` set (dict_del k d) = fst ` set d - {k}"
  by (induction d) (auto simp: dict_del_def)

lemma dict_del_distinct: "distinct (map fst d) \<Longrightarrow> distinct (map fst (dict_del k d))"
  by (simp add: dict_del_keys)

lemma key_in_filtered:
  assumes "distinct (map fst d)" and "e \<in> set d"
  shows "fst e \<in> fst ` {x \<in> set d. P x} \<longleftrightarrow> P e"
proof
  assume "fst e \<in> fst ` {x \<in> set d. P x}"
  then obtain x where x: "x \<in> set d" "P x" "fst x = fst e" by auto
  have "x = e"
    using assms x(1) x(3) by (metis eq_key_imp_eq_value prod.collapse)
  with x(2) show "P e" by simp
next
  assume "P e"
  with assms(2) show "fst e \<in> fst ` {x \<in> set d. P x}" by auto
qed

subsection \<open>The monitoring sweep\<close>


lemma remove_agents_pool:
  "distinct ids \<Longrightarrow> set ids \<subseteq> fst ` set (agents (coord s)) \<Longrightarrow>
   agents (coord (remove_agents ids s)) = filter (\<lambda>e. fst e \<notin> set ids) (agents (coord s))"
proof (induction ids arbitrary: s)
  case Nil
  then show ?case by simp
next
  case (Cons i ids)
  from Cons.prems obtain a where a: "map_of (agents (coord s)) i = Some a"
    by (cases "map_of (agents (coord s)) i") (auto simp: map_of_eq_None_iff)
  let ?s1 = "s\<lparr>store := terminate (store s) a,
               coord := (coord s)\<lparr>agents := dict_del i (agents (coord s))\<rparr>\<rparr>"
  have sub: "set ids \<subseteq> fst ` set (agents (coord ?s1))"
    using Cons.prems by (auto simp: dict_del_keys_set)
  have "agents (coord (remove_agents ids ?s1)) = filter (\<lambda>e. fst e \<notin> set ids) (agents (coord ?s1))"
    using Cons.IH [OF _ sub] Cons.prems by simp
  then show ?case using a by (simp add: dict_del_def conj_commute)
qed

lemma remove_agents_store:
  "distinct (map fst (agents (coord s))) \<Longrightarrow> distinct ids \<Longrightarrow>
   set ids \<subseteq> fst ` set (agents (coord s)) \<Longrightarrow>
   agent_obj (store (remove_agents ids s)) a =
     (if a \<in> snd ` {e \<in> set (agents (coord s)). fst e \<in> set ids}
      then (agent_obj (store s) a)\<lparr>agent_status := TERMINATED\<rparr>
      else agent_obj (store s) a)"
proof (induction ids arbitrary: s)
  case Nil
  then show ?case by simp
next
  case (Cons i ids)
  from Cons.prems obtain b where b: "map_of (agents (coord s)) i = Some b"
    by (cases "map_of (agents (coord s)) i") (auto simp: map_of_eq_None_iff)
  let ?s1 = "s\<lparr>store := terminate (store s) b,
               coord := (coord s)\<lparr>agents := dict_del i (agents (coord s))\<rparr>\<rparr>"
  have d1: "distinct (map fst (agents (coord ?s1)))"
    using Cons.prems by (simp add: dict_del_distinct)
  have sub: "set ids \<subseteq> fst ` set (agents (coord ?s1))"
    using Cons.prems by (auto simp: dict_del_keys_set)
  have ib: "(i, b) \<in> set (agents (coord s))"
    using b by (rule map_of_SomeD)
  have uniq: "\<And>c. (i, c) \<in> set (agents (coord s)) \<Longrightarrow> c = b"
  proof -
    fix c assume "(i, c) \<in> set (agents (coord s))"
    then have "map_of (agents (coord s)) i = Some c"
      using Cons.prems(1) by (rule map_of_is_SomeI [rotated])
    then show "c = b" using b by simp
  qed
  have eq: "snd ` {e \<in> set (agents (coord s)). fst e \<in> set (i # ids)}
      = insert b (snd ` {e \<in> set (agents (coord ?s1)). fst e \<in> set ids})"
  proof -
    have "{e \<in> set (agents (coord s)). fst e \<in> set (i # ids)}
        = insert (i, b) {e \<in> set (agents (coord ?s1)). fst e \<in> set ids}"
    proof (rule set_eqI)
      fix e :: "string \<times> nat"
      obtain k c where e: "e = (k, c)" by (cases e)
      show "e \<in> {e \<in> set (agents (coord s)). fst e \<in> set (i # ids)}
        \<longleftrightarrow> e \<in> insert (i, b) {e \<in> set (agents (coord ?s1)). fst e \<in> set ids}"
        using ib uniq [of c] Cons.prems(2) unfolding e by (auto simp: dict_del_def)
    qed
    then show ?thesis by simp
  qed
  have IH: "agent_obj (store (remove_agents ids ?s1)) a =
     (if a \<in> snd ` {e \<in> set (agents (coord ?s1)). fst e \<in> set ids}
      then (agent_obj (store ?s1) a)\<lparr>agent_status := TERMINATED\<rparr>
      else agent_obj (store ?s1) a)"
    using Cons.IH [OF d1 _ sub] Cons.prems by simp
  show ?case
    unfolding eq using b IH by (auto simp: terminate_def set_agent_def)
qed

text \<open>
  Claim C9. In a sweep of the monitor at time \<open>now\<close>, over a pool whose keys are
  distinct (it is a dictionary), the pool afterwards consists of exactly the entries
  that were not both idle and older than the idle timeout, in their order; every removed
  agent is terminated; every other agent of the pool is left as it was, in its status
  and in every other attribute, so the sweep terminates an agent of the pool exactly
  when it removes it; and a busy agent stays in the pool and stays busy, whatever the
  age of its heartbeat. The agents the sweep terminates are idle, so the \<open>terminate\<close>
  they run is that of \<open>BaseAgent\<close>, also where their class overrides it.
\<close>

theorem monitor_agents_reclaims_idle:
  assumes "distinct (map fst (agents (coord s)))"
  shows "agents (coord (monitor_agents s now))
           = filter (\<lambda>e. \<not> (agent_status (agent_obj (store s) (snd e)) = IDLE
                           \<and> now - last_heartbeat (agent_obj (store s) (snd e))
                               > idle_timeout (coord s) * 1000000))
               (agents (coord s))
       \<and> (\<forall>e \<in> set (agents (coord s)).
             agent_status (agent_obj (store s) (snd e)) = IDLE
             \<and> now - last_heartbeat (agent_obj (store s) (snd e)) > idle_timeout (coord s) * 1000000
             \<longrightarrow> agent_status (agent_obj (store (monitor_agents s now)) (snd e)) = TERMINATED)
       \<and> (\<forall>e \<in> set (agents (coord s)).
             \<not> (agent_status (agent_obj (store s) (snd e)) = IDLE
                \<and> now - last_heartbeat (agent_obj (store s) (snd e))
                    > idle_timeout (coord s) * 1000000)
             \<longrightarrow> agent_obj (store (monitor_agents s now)) (snd e) = agent_obj (store s) (snd e))
       \<and> (\<forall>e \<in> set (agents (coord s)).
             agent_status (agent_obj (store s) (snd e)) = BUSY
             \<longrightarrow> e \<in> set (agents (coord (monitor_agents s now)))
               \<and> agent_status (agent_obj (store (monitor_agents s now)) (snd e)) = BUSY)"
proof -
  let ?P = "\<lambda>e. agent_status (agent_obj (store s) (snd e)) = IDLE
                \<and> now - last_heartbeat (agent_obj (store s) (snd e)) > idle_timeout (coord s) * 1000000"
  let ?ids = "agents_to_remove s now"
  have ids: "?ids = map fst (filter ?P (agents (coord s)))"
    by (simp add: agents_to_remove_def)
  have dist: "distinct ?ids"
    unfolding ids using assms by (rule distinct_map_filter)
  have sub: "set ?ids \<subseteq> fst ` set (agents (coord s))"
    unfolding ids by auto
  have key: "\<And>e. e \<in> set (agents (coord s)) \<Longrightarrow> fst e \<in> set ?ids \<longleftrightarrow> ?P e"
  proof -
    fix e assume e: "e \<in> set (agents (coord s))"
    have "set ?ids = fst ` {x \<in> set (agents (coord s)). ?P x}"
      unfolding ids by auto
    then show "fst e \<in> set ?ids \<longleftrightarrow> ?P e"
      using key_in_filtered [OF assms e, of ?P] by simp
  qed
  have pool: "agents (coord (monitor_agents s now)) = filter (\<lambda>e. \<not> ?P e) (agents (coord s))"
  proof -
    have "agents (coord (monitor_agents s now))
            = filter (\<lambda>e. fst e \<notin> set ?ids) (agents (coord s))"
      unfolding monitor_agents_def using dist sub by (rule remove_agents_pool)
    also have "\<dots> = filter (\<lambda>e. \<not> ?P e) (agents (coord s))"
      by (rule filter_cong) (simp_all add: key)
    finally show ?thesis .
  qed
  have obj: "\<And>a. agent_obj (store (monitor_agents s now)) a =
     (if a \<in> snd ` {e \<in> set (agents (coord s)). fst e \<in> set ?ids}
      then (agent_obj (store s) a)\<lparr>agent_status := TERMINATED\<rparr>
      else agent_obj (store s) a)"
    unfolding monitor_agents_def using assms dist sub by (rule remove_agents_store)
  have gone: "\<forall>e \<in> set (agents (coord s)). ?P e
             \<longrightarrow> agent_status (agent_obj (store (monitor_agents s now)) (snd e)) = TERMINATED"
  proof (intro ballI impI)
    fix e assume e: "e \<in> set (agents (coord s))" and p: "?P e"
    from e p have "snd e \<in> snd ` {e \<in> set (agents (coord s)). fst e \<in> set ?ids}"
      using key [OF e] by blast
    then show "agent_status (agent_obj (store (monitor_agents s now)) (snd e)) = TERMINATED"
      by (simp add: obj)
  qed
  have kept: "\<forall>e \<in> set (agents (coord s)). \<not> ?P e
             \<longrightarrow> agent_obj (store (monitor_agents s now)) (snd e) = agent_obj (store s) (snd e)"
  proof (intro ballI impI)
    fix e assume e: "e \<in> set (agents (coord s))" and n: "\<not> ?P e"
    have "snd e \<notin> snd ` {e \<in> set (agents (coord s)). fst e \<in> set ?ids}"
    proof
      assume "snd e \<in> snd ` {e \<in> set (agents (coord s)). fst e \<in> set ?ids}"
      then obtain x where x: "x \<in> set (agents (coord s))" "fst x \<in> set ?ids" "snd x = snd e"
        by auto
      from key [OF x(1)] x(2) have "?P x" by simp
      with x(3) n show False by simp
    qed
    then show "agent_obj (store (monitor_agents s now)) (snd e) = agent_obj (store s) (snd e)"
      by (simp add: obj)
  qed
  have busy: "\<forall>e \<in> set (agents (coord s)).
             agent_status (agent_obj (store s) (snd e)) = BUSY
             \<longrightarrow> e \<in> set (agents (coord (monitor_agents s now)))
               \<and> agent_status (agent_obj (store (monitor_agents s now)) (snd e)) = BUSY"
  proof (intro ballI impI)
    fix e assume e: "e \<in> set (agents (coord s))"
      and b: "agent_status (agent_obj (store s) (snd e)) = BUSY"
    have keep: "e \<in> set (agents (coord (monitor_agents s now)))"
      using e b by (simp add: pool)
    from b have "\<not> ?P e" by simp
    with kept e
    have "agent_obj (store (monitor_agents s now)) (snd e) = agent_obj (store s) (snd e)"
      by blast
    with keep b show "e \<in> set (agents (coord (monitor_agents s now)))
               \<and> agent_status (agent_obj (store (monitor_agents s now)) (snd e)) = BUSY"
      by simp
  qed
  from pool gone kept busy show ?thesis by blast
qed

theorem monitor_agents_reclaims_idle_witness:
  "distinct (map fst (agents (coord example_system)))
   \<and> agent_status (agent_obj (store example_system) 0) = IDLE
   \<and> 301000000 - last_heartbeat (agent_obj (store example_system) 0)
       > idle_timeout (coord example_system) * 1000000
   \<and> agent_status (agent_obj (store example_system) 1) = BUSY
   \<and> agents (coord (monitor_agents example_system 301000000)) = [(''a1'', 1)]
   \<and> agent_status (agent_obj (store (monitor_agents example_system 301000000)) 0) = TERMINATED
   \<and> agent_status (agent_obj (store (monitor_agents example_system 301000000)) 1) = BUSY
   \<and> agent_obj (store (monitor_agents example_system 301000000)) 1
       = agent_obj (store example_system) 1
   \<and> agents (coord (monitor_agents example_system 300000000)) = [(''a0'', 0), (''a1'', 1)]
   \<and> agent_obj (store (monitor_agents example_system 300000000)) 0
       = agent_obj (store example_system) 0
   \<and> agent_status (agent_obj (store (monitor_agents example_system 300000000)) 0) = IDLE"
proof -
  have pool: "agents (coord example_system) = [(''a0'', 0), (''a1'', 1)]"
    and a0: "agent_status (agent_obj (store example_system) 0) = IDLE"
    and hb: "last_heartbeat (agent_obj (store example_system) 0) = 0"
      "last_heartbeat (agent_obj (store example_system) 1) = 0"
    and a1: "agent_status (agent_obj (store example_system) 1) = BUSY"
    and tm: "idle_timeout (coord example_system) = 300"
    by (simp_all add: example_system_def example_heap_def example_agents_def new_agent_def)
  have d: "distinct (map fst (agents (coord example_system)))"
    by (simp add: pool)
  have late: "agents (coord (monitor_agents example_system 301000000)) = [(''a1'', 1)]
   \<and> agent_status (agent_obj (store (monitor_agents example_system 301000000)) 0) = TERMINATED
   \<and> agent_status (agent_obj (store (monitor_agents example_system 301000000)) 1) = BUSY
   \<and> agent_obj (store (monitor_agents example_system 301000000)) 1
       = agent_obj (store example_system) 1"
    using monitor_agents_reclaims_idle [OF d, of 301000000] a0 a1
    by (simp add: pool hb tm)
  have early: "agents (coord (monitor_agents example_system 300000000)) = [(''a0'', 0), (''a1'', 1)]
   \<and> agent_obj (store (monitor_agents example_system 300000000)) 0
       = agent_obj (store example_system) 0"
    using monitor_agents_reclaims_idle [OF d, of 300000000] a0 a1
    by (simp add: pool hb tm)
  from d a0 a1 late early show ?thesis
    by (simp add: hb tm)
qed

subsection \<open>The size of the pool\<close>














subsection \<open>The example runs are runs of the system\<close>

lemma get_suitable_agent_running:
  "get_suitable_agent s t uuid now = (r, s2) \<Longrightarrow> is_running (coord s2) = is_running (coord s)"
  by (auto simp: get_suitable_agent_def construct_agent_def Let_def
           split: option.splits if_splits factory_result.splits)

lemma process_task_queue_running:
  "is_running (coord (process_task_queue s uuid now)) = is_running (coord s)"
proof (cases "task_queue (coord s)")
  case Nil
  then show ?thesis by (simp add: process_task_queue_def)
next
  case (Cons t q)
  let ?s1 = "s\<lparr>coord := (coord s)\<lparr>task_queue := q\<rparr>\<rparr>"
  obtain g s2 where g: "get_suitable_agent ?s1 t uuid now = (g, s2)"
    by (cases "get_suitable_agent ?s1 t uuid now")
  from get_suitable_agent_running [OF g] have "is_running (coord s2) = is_running (coord s)"
    by simp
  then show ?thesis
    using Cons g
    by (auto simp: process_task_queue_def Let_def split: sum.splits option.splits prod.splits)
qed

lemma execute_agent_task_running:
  "is_running (coord (execute_agent_task s a t outcome dt)) = is_running (coord s)"
  by (simp add: execute_agent_task_def Let_def split: prod.splits)

lemma submit_task_running: "is_running (coord (snd (submit_task s t))) = is_running (coord s)"
  by (simp add: submit_task_def Let_def)

lemma run_with_reachable: "reachable 100 initial_heap (run_with outcome)"
proof -
  define s0 where "s0 = start (init_system 100 initial_heap)"
  define s1 where "s1 = snd (submit_task s0 0)"
  define s2 where "s2 = dispatch (poll s1) ''u0'' 0"
  define s3 where "s3 = execute_agent_task s2 0 0 outcome 1"
  define s4 where "s4 = snd (submit_task s3 1)"
  have r0: "is_running (coord s0)"
    by (simp add: s0_def start_def)
  then have r1: "is_running (coord s1)"
    by (simp add: s1_def submit_task_running)
  then have r2: "is_running (coord s2)"
    by (simp add: s2_def dispatch_def poll_def process_task_queue_running)
  then have r4: "is_running (coord s4)"
    by (simp add: s4_def s3_def submit_task_running execute_agent_task_running)
  have "executions (dispatch (poll (snd (submit_task (start (init_system 100 initial_heap)) 0)))
                      ''u0'' 0) = [(0, 0)]"
    by code_simp
  then have ex: "(0, 0) \<in> set (executions s2)"
    by (simp add: s2_def s1_def s0_def)
  have p: "\<And>s. 0 < polling (poll s)"
    by (simp add: poll_def)
  have "step (init_system 100 initial_heap) s0"
    unfolding s0_def by (rule step_start)
  moreover have "step s0 s1"
    unfolding s1_def by (rule step_submit)
  moreover have "step s1 (poll s1)"
    using r1 by (rule step_poll)
  moreover have "step (poll s1) s2"
    unfolding s2_def using p by (rule step_dispatch)
  moreover have "step s2 s3"
    unfolding s3_def using ex by (rule step_execute)
  moreover have "step s3 s4"
    unfolding s4_def by (rule step_submit)
  moreover have "step s4 (poll s4)"
    using r4 by (rule step_poll)
  moreover have "step (poll s4) (dispatch (poll s4) ''u1'' 2)"
    using p by (rule step_dispatch)
  ultimately have "step\<^sup>*\<^sup>* (init_system 100 initial_heap) (dispatch (poll s4) ''u1'' 2)"
    by (meson rtranclp.rtrancl_into_rtrancl rtranclp.rtrancl_refl)
  moreover have "run_with outcome = dispatch (poll s4) ''u1'' 2"
    by (simp add: run_with_def Let_def s0_def s1_def s2_def s3_def s4_def)
  ultimately show ?thesis
    by (simp add: reachable_def)
qed

text \<open>
  A dispatch can follow \<open>stop\<close>: the run is a run of the system, the coordinator is not
  running at its end, and the task submitted after \<open>stop\<close> is in progress on an agent
  created for it, which nothing has terminated.
\<close>

lemma late_dispatch_run_reachable:
  "reachable 100 initial_heap late_dispatch_run
   \<and> \<not> is_running (coord late_dispatch_run)
   \<and> agents (coord late_dispatch_run) = [(''u0'', 0)]
   \<and> agent_status (agent_obj (store late_dispatch_run) 0) = BUSY
   \<and> status (task_obj (store late_dispatch_run) 0) = ''in_progress''
   \<and> executions late_dispatch_run = [(0, 0)]"
proof -
  define s0 where "s0 = start (init_system 100 initial_heap)"
  define s1 where "s1 = stop (poll s0)"
  define s2 where "s2 = snd (submit_task s1 0)"
  have r0: "is_running (coord s0)"
    by (simp add: s0_def start_def)
  have p2: "0 < polling s2"
    by (simp add: s2_def s1_def submit_task_def stop_def poll_def Let_def)
  have "step (init_system 100 initial_heap) s0"
    unfolding s0_def by (rule step_start)
  moreover have "step s0 (poll s0)"
    using r0 by (rule step_poll)
  moreover have "step (poll s0) s1"
    unfolding s1_def by (rule step_stop)
  moreover have "step s1 s2"
    unfolding s2_def by (rule step_submit)
  moreover have "step s2 (dispatch s2 ''u0'' 0)"
    using p2 by (rule step_dispatch)
  ultimately have "step\<^sup>*\<^sup>* (init_system 100 initial_heap) (dispatch s2 ''u0'' 0)"
    by (meson rtranclp.rtrancl_into_rtrancl rtranclp.rtrancl_refl)
  moreover have "late_dispatch_run = dispatch s2 ''u0'' 0"
    by (simp add: late_dispatch_run_def Let_def s0_def s1_def s2_def)
  ultimately have "reachable 100 initial_heap late_dispatch_run"
    by (simp add: reachable_def)
  moreover have "\<not> is_running (coord late_dispatch_run)
   \<and> agents (coord late_dispatch_run) = [(''u0'', 0)]
   \<and> agent_status (agent_obj (store late_dispatch_run) 0) = BUSY
   \<and> status (task_obj (store late_dispatch_run) 0) = ''in_progress''
   \<and> executions late_dispatch_run = [(0, 0)]"
    by code_simp
  ultimately show ?thesis by simp
qed

text \<open>
  A task that asks for coordination is lost: the constructor of the orchestrator class
  raises, the dispatch loop logs the exception, and the task, taken from the queue, is
  neither assigned nor put back; it stays pending in the active tasks, and the pool
  stays empty.
\<close>

lemma orchestration_run_loses_task:
  "reachable 100 orchestration_heap orchestration_run
   \<and> create_agent_for_task (description (task_obj orchestration_heap 0))
       = Instance TaskOrchestratorAgent
   \<and> agents (coord orchestration_run) = []
   \<and> task_queue (coord orchestration_run) = []
   \<and> executions orchestration_run = []
   \<and> active_tasks (coord orchestration_run) = [(''c0'', 0)]
   \<and> status (task_obj (store orchestration_run) 0) = ''pending''
   \<and> agent_count (store orchestration_run) = 0"
proof -
  define s0 where "s0 = start (init_system 100 orchestration_heap)"
  define s1 where "s1 = snd (submit_task s0 0)"
  have r1: "is_running (coord s1)"
    by (simp add: s1_def s0_def start_def submit_task_running)
  have p: "0 < polling (poll s1)"
    by (simp add: poll_def)
  have "step (init_system 100 orchestration_heap) s0"
    unfolding s0_def by (rule step_start)
  moreover have "step s0 s1"
    unfolding s1_def by (rule step_submit)
  moreover have "step s1 (poll s1)"
    using r1 by (rule step_poll)
  moreover have "step (poll s1) (dispatch (poll s1) ''u0'' 0)"
    using p by (rule step_dispatch)
  ultimately have "step\<^sup>*\<^sup>* (init_system 100 orchestration_heap) (dispatch (poll s1) ''u0'' 0)"
    by (meson rtranclp.rtrancl_into_rtrancl rtranclp.rtrancl_refl)
  moreover have "orchestration_run = dispatch (poll s1) ''u0'' 0"
    by (simp add: orchestration_run_def Let_def s0_def s1_def)
  ultimately have "reachable 100 orchestration_heap orchestration_run"
    by (simp add: reachable_def)
  moreover have "create_agent_for_task (description (task_obj orchestration_heap 0))
       = Instance TaskOrchestratorAgent
   \<and> agents (coord orchestration_run) = []
   \<and> task_queue (coord orchestration_run) = []
   \<and> executions orchestration_run = []
   \<and> active_tasks (coord orchestration_run) = [(''c0'', 0)]
   \<and> status (task_obj (store orchestration_run) 0) = ''pending''
   \<and> agent_count (store orchestration_run) = 0"
    by code_simp
  ultimately show ?thesis by simp
qed


subsection \<open>Dispatch\<close>

lemma get_suitable_agent_idle:
  assumes "get_suitable_agent s t uuid now = (Inr (Some a), s2)"
  shows "agent_status (agent_obj (store s2) a) = IDLE
       \<and> task_obj (store s2) = task_obj (store s)
       \<and> executions s2 = executions s
       \<and> task_queue (coord s2) = task_queue (coord s)"
proof (cases "find (\<lambda>e. agent_status (agent_obj (store s) (snd e)) = IDLE
                    \<and> agent_can_handle_task (store s) (snd e) t) (agents (coord s))")
  case (Some e)
  then have "agent_status (agent_obj (store s) (snd e)) = IDLE"
    by (auto simp: find_Some_iff)
  with Some assms show ?thesis
    by (auto simp: get_suitable_agent_def)
next
  case None
  with assms show ?thesis
    by (auto simp: get_suitable_agent_def construct_agent_def new_agent_def Let_def
             split: if_splits factory_result.splits)
qed

lemma get_suitable_agent_status:
  "get_suitable_agent s t uuid now = (r, s2) \<Longrightarrow> task_obj (store s2) = task_obj (store s)"
  by (auto simp: get_suitable_agent_def construct_agent_def Let_def
           split: option.splits if_splits factory_result.splits)

lemma assign_task_status:
  "assign_task h a t = (b, h') \<Longrightarrow> status (task_obj h' r) = ''failed'' \<Longrightarrow>
   status (task_obj h r) = ''failed''"
  by (auto simp: assign_task_def set_agent_def set_task_def Let_def split: if_splits)

lemma process_task_queue_no_failure:
  assumes "status (task_obj (store (process_task_queue s uuid now)) r) = ''failed''"
  shows "status (task_obj (store s) r) = ''failed''"
proof (cases "task_queue (coord s)")
  case Nil
  with assms show ?thesis by (simp add: process_task_queue_def)
next
  case (Cons t q)
  let ?s1 = "s\<lparr>coord := (coord s)\<lparr>task_queue := q\<rparr>\<rparr>"
  obtain g s2 where g: "get_suitable_agent ?s1 t uuid now = (g, s2)"
    by (cases "get_suitable_agent ?s1 t uuid now")
  from get_suitable_agent_status [OF g] have same: "task_obj (store s2) = task_obj (store s)"
    by simp
  show ?thesis
    using assms Cons g same
    by (auto simp: process_task_queue_def Let_def
             split: sum.splits option.splits prod.splits dest: assign_task_status)
qed

lemma agent_can_handle_task_dependencies:
  "agent_can_handle_task (set_task h r ((task_obj h r)\<lparr>dependencies := ds\<rparr>)) a t
     = agent_can_handle_task h a t"
  by (simp add: agent_can_handle_task_def set_task_def)

lemma get_suitable_agent_dependencies:
  "get_suitable_agent (with_dependencies s r ds) t uuid now
     = (fst (get_suitable_agent s t uuid now),
        with_dependencies (snd (get_suitable_agent s t uuid now)) r ds)"
proof -
  let ?h = "set_task (store s) r ((task_obj (store s) r)\<lparr>dependencies := ds\<rparr>)"
  have st: "store (with_dependencies s r ds) = ?h"
    and co: "coord (with_dependencies s r ds) = coord s"
    by (simp_all add: with_dependencies_def)
  have ag: "agent_obj ?h = agent_obj (store s)" and cnt: "agent_count ?h = agent_count (store s)"
    and de: "description (task_obj ?h t) = description (task_obj (store s) t)"
    by (simp_all add: set_task_def)
  have P: "(\<lambda>e. agent_status (agent_obj ?h (snd e)) = IDLE \<and> agent_can_handle_task ?h (snd e) t)
         = (\<lambda>e. agent_status (agent_obj (store s) (snd e)) = IDLE
                \<and> agent_can_handle_task (store s) (snd e) t)"
    by (simp add: ag agent_can_handle_task_dependencies)
  show ?thesis
    unfolding get_suitable_agent_def st co P de
    by (auto simp: with_dependencies_def construct_agent_def set_task_def Let_def
             split: option.splits factory_result.splits)
qed

lemma task_updates_swap:
  "(x :: Task)\<lparr>dependencies := ds, assigned_to := a, status := st\<rparr>
     = x\<lparr>assigned_to := a, status := st, dependencies := ds\<rparr>"
  by (cases x) simp

lemma assign_task_dependencies:
  "assign_task (set_task h r ((task_obj h r)\<lparr>dependencies := ds\<rparr>)) a t
     = (fst (assign_task h a t),
        set_task (snd (assign_task h a t)) r
          ((task_obj (snd (assign_task h a t)) r)\<lparr>dependencies := ds\<rparr>))"
proof (cases "r = t")
  case True
  then show ?thesis
    by (simp add: assign_task_def set_agent_def set_task_def Let_def task_updates_swap)
next
  case False
  then show ?thesis
    by (simp add: assign_task_def set_agent_def set_task_def Let_def fun_upd_twist)
qed

lemma process_task_queue_dependencies:
  "process_task_queue (with_dependencies s r ds) uuid now
     = with_dependencies (process_task_queue s uuid now) r ds"
proof (cases "task_queue (coord s)")
  case Nil
  then show ?thesis by (simp add: process_task_queue_def with_dependencies_def)
next
  case (Cons t q)
  let ?s1 = "s\<lparr>coord := (coord s)\<lparr>task_queue := q\<rparr>\<rparr>"
  have q1: "(with_dependencies s r ds)\<lparr>coord := (coord (with_dependencies s r ds))\<lparr>task_queue := q\<rparr>\<rparr>
          = with_dependencies ?s1 r ds"
    by (simp add: with_dependencies_def)
  have tq: "task_queue (coord (with_dependencies s r ds)) = t # q"
    using Cons by (simp add: with_dependencies_def)
  obtain g s2 where g: "get_suitable_agent ?s1 t uuid now = (g, s2)"
    by (cases "get_suitable_agent ?s1 t uuid now")
  have g': "get_suitable_agent (with_dependencies ?s1 r ds) t uuid now = (g, with_dependencies s2 r ds)"
    using get_suitable_agent_dependencies [of ?s1 r ds t uuid now] g by simp
  show ?thesis
  proof (cases g)
    case (Inl e)
    then show ?thesis
      using Cons tq g g' by (simp add: process_task_queue_def q1 Let_def)
  next
    case (Inr o1)
    show ?thesis
    proof (cases o1)
      case None
      then show ?thesis
        using Cons tq g g' Inr
        by (simp add: process_task_queue_def q1 Let_def) (simp add: with_dependencies_def)
    next
      case (Some a)
      have st: "store (with_dependencies s2 r ds)
                  = set_task (store s2) r ((task_obj (store s2) r)\<lparr>dependencies := ds\<rparr>)"
        by (simp add: with_dependencies_def)
      show ?thesis
        using Cons tq g g' Inr Some
        by (simp add: process_task_queue_def q1 Let_def st assign_task_dependencies
              split: prod.splits)
           (simp add: with_dependencies_def)
    qed
  qed
qed

text \<open>
  Claim C1, as amended. The dispatch step does not consult the dependencies of a task.
  Whenever the coordinator takes a task from the head of the queue and
  \<open>_get_suitable_agent\<close> yields an agent (an idle capable one of the pool, or a new one
  below \<open>max_agents\<close>), the task is assigned to it and is in progress, with its dependencies
  as they were, whatever the status of the tasks they name. The step never makes a task
  failed, and it commutes with any change of any task's dependencies.
\<close>

theorem dispatch_ignores_dependencies:
  "(task_queue (coord s) = t # q
      \<and> fst (get_suitable_agent (s\<lparr>coord := (coord s)\<lparr>task_queue := q\<rparr>\<rparr>) t uuid now) = Inr (Some a)
    \<longrightarrow> status (task_obj (store (process_task_queue s uuid now)) t) = ''in_progress''
      \<and> assigned_to (task_obj (store (process_task_queue s uuid now)) t)
          = Some (agent_id (agent_obj (store (process_task_queue s uuid now)) a))
      \<and> agent_status (agent_obj (store (process_task_queue s uuid now)) a) = BUSY
      \<and> executions (process_task_queue s uuid now) = executions s @ [(a, t)]
      \<and> dependencies (task_obj (store (process_task_queue s uuid now)) t)
          = dependencies (task_obj (store s) t))
   \<and> (\<forall>r. status (task_obj (store (process_task_queue s uuid now)) r) = ''failed''
          \<longrightarrow> status (task_obj (store s) r) = ''failed'')
   \<and> (\<forall>r ds. process_task_queue (with_dependencies s r ds) uuid now
               = with_dependencies (process_task_queue s uuid now) r ds)"
proof -
  have main: "task_queue (coord s) = t # q
      \<and> fst (get_suitable_agent (s\<lparr>coord := (coord s)\<lparr>task_queue := q\<rparr>\<rparr>) t uuid now) = Inr (Some a)
    \<longrightarrow> status (task_obj (store (process_task_queue s uuid now)) t) = ''in_progress''
      \<and> assigned_to (task_obj (store (process_task_queue s uuid now)) t)
          = Some (agent_id (agent_obj (store (process_task_queue s uuid now)) a))
      \<and> agent_status (agent_obj (store (process_task_queue s uuid now)) a) = BUSY
      \<and> executions (process_task_queue s uuid now) = executions s @ [(a, t)]
      \<and> dependencies (task_obj (store (process_task_queue s uuid now)) t)
          = dependencies (task_obj (store s) t)"
  proof (intro impI)
    let ?s1 = "s\<lparr>coord := (coord s)\<lparr>task_queue := q\<rparr>\<rparr>"
    assume a: "task_queue (coord s) = t # q
      \<and> fst (get_suitable_agent ?s1 t uuid now) = Inr (Some a)"
    then obtain s2 where g: "get_suitable_agent ?s1 t uuid now = (Inr (Some a), s2)"
      by (cases "get_suitable_agent ?s1 t uuid now") auto
    from get_suitable_agent_idle [OF g]
    have idle: "agent_status (agent_obj (store s2) a) = IDLE"
      and same: "task_obj (store s2) = task_obj (store s)"
      and ex: "executions s2 = executions s"
      by simp_all
    have eq: "process_task_queue s uuid now
        = s2\<lparr>store := snd (assign_task (store s2) a t), executions := executions s2 @ [(a, t)]\<rparr>"
      using a g by (simp add: process_task_queue_def Let_def split: prod.splits)
    show "status (task_obj (store (process_task_queue s uuid now)) t) = ''in_progress''
      \<and> assigned_to (task_obj (store (process_task_queue s uuid now)) t)
          = Some (agent_id (agent_obj (store (process_task_queue s uuid now)) a))
      \<and> agent_status (agent_obj (store (process_task_queue s uuid now)) a) = BUSY
      \<and> executions (process_task_queue s uuid now) = executions s @ [(a, t)]
      \<and> dependencies (task_obj (store (process_task_queue s uuid now)) t)
          = dependencies (task_obj (store s) t)"
      unfolding eq using idle same ex
      by (simp add: assign_task_def set_agent_def set_task_def Let_def)
  qed
  from main process_task_queue_no_failure [of s uuid now]
    process_task_queue_dependencies [of s _ _ uuid now]
  show ?thesis by blast
qed

theorem dispatch_ignores_dependencies_witness:
  "task_queue (coord example_system) = [0]
   \<and> fst (get_suitable_agent (example_system\<lparr>coord := (coord example_system)\<lparr>task_queue := []\<rparr>\<rparr>)
            0 ''u'' 5) = Inr (Some 0)
   \<and> status (task_obj (store (process_task_queue example_system ''u'' 5)) 0) = ''in_progress''
   \<and> assigned_to (task_obj (store (process_task_queue example_system ''u'' 5)) 0) = Some ''a0''
   \<and> executions (process_task_queue example_system ''u'' 5) = [(1, 1), (0, 0)]
   \<and> process_task_queue (with_dependencies example_system 0 [''t1'']) ''u'' 5
       = with_dependencies (process_task_queue example_system ''u'' 5) 0 [''t1'']
   \<and> status (task_obj (store (process_task_queue failed_system ''u'' 5)) 1) = ''failed''
   \<and> status (task_obj (store failed_system) 1) = ''failed''"
proof -
  have q: "task_queue (coord example_system) = [0]"
    and g: "fst (get_suitable_agent
                  (example_system\<lparr>coord := (coord example_system)\<lparr>task_queue := []\<rparr>\<rparr>) 0 ''u'' 5)
             = Inr (Some 0)"
    and ex: "executions example_system = [(1, 1)]"
    and ag: "agent_id (agent_obj (store (process_task_queue example_system ''u'' 5)) 0) = ''a0''"
    by code_simp+
  have after: "status (task_obj (store (process_task_queue failed_system ''u'' 5)) 1) = ''failed''"
    by code_simp
  then have before: "status (task_obj (store failed_system) 1) = ''failed''"
    using dispatch_ignores_dependencies [of failed_system 0 "[]" "''u''" 5 0] by blast
  show ?thesis
    using q g ex ag after before
      dispatch_ignores_dependencies [of example_system 0 "[]" "''u''" 5 0]
    by simp
qed

text \<open>
  The claim as stated fails: in this run of the system the first task has failed, the second task
  names it as its only dependency, and the coordinator dispatches the second task all the
  same, so that it is in progress on a new agent.
\<close>

theorem dependency_not_awaited_counterexample:
  "reachable 100 initial_heap failed_dependency_run
   \<and> status (task_obj (store failed_dependency_run) 0) = ''failed''
   \<and> dependencies (task_obj (store failed_dependency_run) 1)
       = [task_id (task_obj (store failed_dependency_run) 0)]
   \<and> status (task_obj (store failed_dependency_run) 1) = ''in_progress''
   \<and> assigned_to (task_obj (store failed_dependency_run) 1) = Some ''u1''
   \<and> executions failed_dependency_run = [(1, 1)]"
proof -
  have "reachable 100 initial_heap failed_dependency_run"
    unfolding failed_dependency_run_def by (rule run_with_reachable)
  moreover have "status (task_obj (store failed_dependency_run) 0) = ''failed''
   \<and> dependencies (task_obj (store failed_dependency_run) 1)
       = [task_id (task_obj (store failed_dependency_run) 0)]
   \<and> status (task_obj (store failed_dependency_run) 1) = ''in_progress''
   \<and> assigned_to (task_obj (store failed_dependency_run) 1) = Some ''u1''
   \<and> executions failed_dependency_run = [(1, 1)]"
    by code_simp
  ultimately show ?thesis by simp
qed

subsection \<open>The end of an execution\<close>

lemma find_holds: "find P xs = Some x \<Longrightarrow> P x"
  by (induction xs) (auto split: if_splits)

lemma execute_task_task_id:
  "task_id (task_obj (snd (execute_task h a outcome dt)) t) = task_id (task_obj h t)"
  by (auto simp: execute_task_def task_failure_def set_agent_def set_task_def Let_def
           split: option.splits body_outcome.splits)

lemma execute_task_agent_status:
  assumes "current_task (agent_obj h a) = Some ct"
  shows "agent_status (agent_obj (snd (execute_task h a outcome dt)) a)
           = (case fst (execute_task h a outcome dt) of Inr res \<Rightarrow> COMPLETED | Inl e \<Rightarrow> ERROR)"
  using assms
  by (auto simp: execute_task_def task_failure_def set_agent_def set_task_def Let_def
           split: body_outcome.splits)

text \<open>
  Claim C2, as amended. When the execution of a dispatched task ends, with a result or
  with an exception, the coordinator records the task under its id in the completed
  tasks and drops that id from the active tasks. The agent, which held a current task,
  is then in status completed after a result and in status error after an exception; it
  is not idle, so the search of the pool for an idle agent passes over it.
\<close>

theorem execution_end_records_task:
  assumes "current_task (agent_obj (store s) a) = Some ct"
  shows "map_of (completed_tasks (coord (execute_agent_task s a t outcome dt)))
             (task_id (task_obj (store s) t)) = Some t
       \<and> task_id (task_obj (store s) t)
             \<notin> fst ` set (active_tasks (coord (execute_agent_task s a t outcome dt)))
       \<and> task_id (task_obj (store (execute_agent_task s a t outcome dt)) t)
             = task_id (task_obj (store s) t)
       \<and> agent_status (agent_obj (store (execute_agent_task s a t outcome dt)) a)
             = (case fst (execute_task (store s) a outcome dt) of
                  Inr res \<Rightarrow> COMPLETED | Inl e \<Rightarrow> ERROR)
       \<and> agent_status (agent_obj (store (execute_agent_task s a t outcome dt)) a) \<noteq> IDLE
       \<and> find (\<lambda>e. agent_status (agent_obj (store (execute_agent_task s a t outcome dt)) (snd e)) = IDLE
                    \<and> agent_can_handle_task (store (execute_agent_task s a t outcome dt)) (snd e) t')
            (agents (coord (execute_agent_task s a t outcome dt))) \<noteq> Some (k, a)"
proof -
  let ?s' = "execute_agent_task s a t outcome dt"
  obtain r h1 where e: "execute_task (store s) a outcome dt = (r, h1)"
    by (cases "execute_task (store s) a outcome dt")
  have id1: "task_id (task_obj h1 t) = task_id (task_obj (store s) t)"
    using execute_task_task_id [of "store s" a outcome dt t] e by simp
  have st1: "agent_status (agent_obj h1 a) = (case r of Inr res \<Rightarrow> COMPLETED | Inl e \<Rightarrow> ERROR)"
    using execute_task_agent_status [OF assms, of outcome dt] e by simp
  have recorded: "map_of (completed_tasks (coord ?s')) (task_id (task_obj (store s) t)) = Some t"
    using e id1
    by (auto simp: execute_agent_task_def Let_def set_task_def map_of_dict_set split: sum.splits)
  have active: "task_id (task_obj (store s) t) \<notin> fst ` set (active_tasks (coord ?s'))"
    using e id1
    by (auto simp: execute_agent_task_def Let_def set_task_def dict_del_keys_set split: sum.splits)
  have ident: "task_id (task_obj (store ?s') t) = task_id (task_obj (store s) t)"
    using e id1
    by (auto simp: execute_agent_task_def Let_def set_task_def split: sum.splits)
  have stat: "agent_status (agent_obj (store ?s') a)
             = (case fst (execute_task (store s) a outcome dt) of
                  Inr res \<Rightarrow> COMPLETED | Inl e \<Rightarrow> ERROR)"
    using e st1
    by (auto simp: execute_agent_task_def Let_def set_task_def split: sum.splits)
  then have busy: "agent_status (agent_obj (store ?s') a) \<noteq> IDLE"
    by (simp split: sum.splits)
  have pass: "find (\<lambda>e. agent_status (agent_obj (store ?s') (snd e)) = IDLE
                    \<and> agent_can_handle_task (store ?s') (snd e) t')
            (agents (coord ?s')) \<noteq> Some (k, a)"
  proof
    assume "find (\<lambda>e. agent_status (agent_obj (store ?s') (snd e)) = IDLE
                    \<and> agent_can_handle_task (store ?s') (snd e) t')
            (agents (coord ?s')) = Some (k, a)"
    then have "agent_status (agent_obj (store ?s') (snd (k, a))) = IDLE
                    \<and> agent_can_handle_task (store ?s') (snd (k, a)) t'"
      by (rule find_holds)
    then have "agent_status (agent_obj (store ?s') a) = IDLE"
      by simp
    with busy show False by simp
  qed
  from recorded active ident stat busy pass show ?thesis by blast
qed

theorem execution_end_records_task_witness:
  "current_task (agent_obj (store example_system) 1) = Some 1
   \<and> map_of (completed_tasks (coord (execute_agent_task example_system 1 1 (Returns (PStr ''done'')) 3)))
       ''t1'' = Some 1
   \<and> ''t1'' \<notin> fst ` set (active_tasks
                            (coord (execute_agent_task example_system 1 1 (Returns (PStr ''done'')) 3)))
   \<and> agent_status
       (agent_obj (store (execute_agent_task example_system 1 1 (Returns (PStr ''done'')) 3)) 1)
       = COMPLETED
   \<and> agent_status
       (agent_obj (store (execute_agent_task example_system 1 1 (Raises (Raised ''boom'')) 3)) 1)
       = ERROR"
proof -
  have c: "current_task (agent_obj (store example_system) 1) = Some 1"
    and i: "task_id (task_obj (store example_system) 1) = ''t1''"
    and r: "fst (execute_task (store example_system) 1 (Returns (PStr ''done'')) 3)
              = Inr (PStr ''done'')"
      "fst (execute_task (store example_system) 1 (Raises (Raised ''boom'')) 3)
              = Inl (Raised ''boom'')"
    by code_simp+
  show ?thesis
    using c i r execution_end_records_task [OF c, of 1 "Returns (PStr ''done'')" 3]
      execution_end_records_task [OF c, of 1 "Raises (Raised ''boom'')" 3]
    by simp
qed

text \<open>
  The claim as stated fails: in this run of the system the first task has been executed
  to its end and is recorded as completed, and the agent that executed it is in status
  completed, not idle. The second task, which this agent's capabilities match, is given
  to a newly created agent.
\<close>

theorem agent_not_idle_after_execution_counterexample:
  "reachable 100 initial_heap completed_run
   \<and> map_of (completed_tasks (coord completed_run)) ''t0'' = Some 0
   \<and> active_tasks (coord completed_run) = [(''t1'', 1)]
   \<and> status (task_obj (store completed_run) 0) = ''completed''
   \<and> agent_status (agent_obj (store completed_run) 0) = COMPLETED
   \<and> agent_can_handle_task (store completed_run) 0 1
   \<and> agents (coord completed_run) = [(''u0'', 0), (''u1'', 1)]
   \<and> assigned_to (task_obj (store completed_run) 1) = Some ''u1''"
proof -
  have "reachable 100 initial_heap completed_run"
    unfolding completed_run_def by (rule run_with_reachable)
  moreover have "map_of (completed_tasks (coord completed_run)) ''t0'' = Some 0
   \<and> active_tasks (coord completed_run) = [(''t1'', 1)]
   \<and> status (task_obj (store completed_run) 0) = ''completed''
   \<and> agent_status (agent_obj (store completed_run) 0) = COMPLETED
   \<and> agent_can_handle_task (store completed_run) 0 1
   \<and> agents (coord completed_run) = [(''u0'', 0), (''u1'', 1)]
   \<and> assigned_to (task_obj (store completed_run) 1) = Some ''u1''"
    by code_simp
  ultimately show ?thesis by simp
qed

section \<open>Properties of the execution plan\<close>

subsection \<open>One pass\<close>

text \<open>
  A pass never raises: every task of the copy is still in the live list when the pass
  reaches it. It moves tasks from the live list to the level and loses none.
\<close>

lemma level_pass_total:
  "mset copy \<subseteq># mset remaining \<Longrightarrow>
   \<exists>current_level' remaining'.
     level_pass copy current_level remaining = Inr (current_level', remaining')
     \<and> mset current_level' + mset remaining' = mset current_level + mset remaining"
proof (induction copy arbitrary: current_level remaining)
  case Nil
  then show ?case by simp
next
  case (Cons task rest)
  from Cons.prems have mem: "task \<in> set remaining"
    by (metis insert_subset_eq_iff mset.simps(2) set_mset_mset mset_subset_eqD union_single_eq_member)
  show ?case
  proof (cases "list_all (\<lambda>dep. dep \<notin> set (map task_id remaining)) (dependencies task)")
    case True
    have "mset rest \<subseteq># mset (remove1 task remaining)"
      using Cons.prems by (simp add: insert_subset_eq_iff)
    from Cons.IH [OF this, of "current_level @ [task]"] True mem show ?thesis
      by auto
  next
    case False
    have "mset rest \<subseteq># mset remaining"
      using Cons.prems by (metis mset.simps(2) mset_subset_eq_insertD subset_mset.less_imp_le)
    from Cons.IH [OF this, of current_level] False show ?thesis
      by auto
  qed
qed

lemma level_pass_start:
  "\<exists>current_level remaining'.
     level_pass remaining [] remaining = Inr (current_level, remaining')
     \<and> mset current_level + mset remaining' = mset remaining"
  using level_pass_total [of remaining remaining "[]"] by simp

text \<open>A pass that extracts nothing leaves the live list as it is.\<close>

lemma level_pass_keeps_level:
  "level_pass copy current_level remaining = Inr (current_level', remaining') \<Longrightarrow>
   \<exists>extracted. current_level' = current_level @ extracted"
proof (induction copy arbitrary: current_level remaining)
  case Nil
  then show ?case by simp
next
  case (Cons task rest)
  show ?case
  proof (cases "list_all (\<lambda>dep. dep \<notin> set (map task_id remaining)) (dependencies task)
                \<and> task \<in> set remaining")
    case True
    with Cons.prems
    have "level_pass rest (current_level @ [task]) (remove1 task remaining)
            = Inr (current_level', remaining')"
      by simp
    from Cons.IH [OF this] show ?thesis by auto
  next
    case False
    with Cons.prems have "level_pass rest current_level remaining = Inr (current_level', remaining')"
      by (auto split: if_splits)
    from Cons.IH [OF this] show ?thesis .
  qed
qed

lemma level_pass_nothing:
  "level_pass copy current_level remaining = Inr (current_level, remaining') \<Longrightarrow>
   remaining' = remaining"
proof (induction copy arbitrary: remaining)
  case Nil
  then show ?case by simp
next
  case (Cons task rest)
  show ?case
  proof (cases "list_all (\<lambda>dep. dep \<notin> set (map task_id remaining)) (dependencies task)
                \<and> task \<in> set remaining")
    case True
    with Cons.prems
    have "level_pass rest (current_level @ [task]) (remove1 task remaining)
            = Inr (current_level, remaining')"
      by simp
    from level_pass_keeps_level [OF this] show ?thesis by simp
  next
    case False
    with Cons.prems have "level_pass rest current_level remaining = Inr (current_level, remaining')"
      by (auto split: if_splits)
    from Cons.IH [OF this] show ?thesis .
  qed
qed

subsection \<open>The loop\<close>

lemma level_loop_total:
  "\<exists>final. level_loop levels remaining = Inr final
     \<and> mset (concat final) = mset (concat levels) + mset remaining
     \<and> length final \<le> length levels + length remaining
     \<and> (remaining \<noteq> [] \<longrightarrow> length levels < length final)
     \<and> take (length levels) final = levels"
proof (induction levels remaining rule: level_loop.induct)
  case (1 levels remaining)
  show ?case
  proof (cases "remaining = []")
    case True
    then show ?thesis by (simp add: level_loop.simps)
  next
    case False
    obtain current_level remaining' where
      p: "level_pass remaining [] remaining = Inr (current_level, remaining')"
      and m: "mset current_level + mset remaining' = mset remaining"
      using level_pass_start [of remaining] by auto
    from m have len: "length current_level + length remaining' = length remaining"
      by (metis size_mset size_union)
    show ?thesis
    proof (cases "current_level = []")
      case True
      have "0 < length remaining"
        using False by simp
      with True False p m len show ?thesis
        by (simp add: level_loop.simps [of levels remaining] Suc_le_eq)
    next
      case nonempty: False
      from "1.IH" [OF False p refl nonempty]
      obtain final where r: "level_loop (levels @ [current_level]) remaining' = Inr final"
        and rm: "mset (concat final) = mset (concat (levels @ [current_level])) + mset remaining'"
        and rl: "length final \<le> length (levels @ [current_level]) + length remaining'"
        and rg: "remaining' \<noteq> [] \<longrightarrow> length (levels @ [current_level]) < length final"
        and rt: "take (length (levels @ [current_level])) final = levels @ [current_level]"
        by auto
      have eq: "level_loop levels remaining = Inr final"
        using False p nonempty r by (simp add: level_loop.simps [of levels remaining])
      have pos: "0 < length current_level"
        using nonempty by simp
      have ge: "length (levels @ [current_level]) \<le> length final"
        using rt by (metis length_take min.cobounded1)
      have tk: "take (length levels) final = levels"
      proof -
        have "take (length levels) final
                = take (length levels) (take (length (levels @ [current_level])) final)"
          by simp
        also have "\<dots> = levels"
          unfolding rt by simp
        finally show ?thesis .
      qed
      have "Suc (length remaining') \<le> length remaining"
        using len pos by linarith
      with rl have bound: "length final \<le> length levels + length remaining"
        by simp
      have ms: "mset (concat final) = mset (concat levels) + mset remaining"
        using rm m by (simp add: ac_simps)
      have gt: "length levels < length final"
        using ge by simp
      from eq ms bound gt tk show ?thesis
        by simp
    qed
  qed
qed

text \<open>
  A non-empty set of tasks, each with a dependency on the id of a task of the set (the
  tasks of a dependency cycle are such a set), is never extracted by a pass.
\<close>

lemma level_pass_blocked:
  assumes "\<And>t. t \<in> S \<Longrightarrow> \<exists>d \<in> set (dependencies t). d \<in> task_id ` S"
    and "S \<subseteq> set remaining"
    and "level_pass copy current_level remaining = Inr (current_level', remaining')"
  shows "S \<subseteq> set remaining' \<and> (S \<inter> set current_level = {} \<longrightarrow> S \<inter> set current_level' = {})"
  using assms(2,3)
proof (induction copy arbitrary: current_level remaining)
  case Nil
  then show ?case by simp
next
  case (Cons task rest)
  show ?case
  proof (cases "list_all (\<lambda>dep. dep \<notin> set (map task_id remaining)) (dependencies task)")
    case False
    with Cons.prems have "level_pass rest current_level remaining = Inr (current_level', remaining')"
      by simp
    from Cons.IH [OF Cons.prems(1) this] show ?thesis .
  next
    case True
    have notin: "task \<notin> S"
    proof
      assume "task \<in> S"
      from assms(1) [OF this] obtain d where d: "d \<in> set (dependencies task)" "d \<in> task_id ` S"
        by auto
      from d(2) Cons.prems(1) have "d \<in> set (map task_id remaining)"
        by auto
      with True d(1) show False
        by (auto simp: list_all_iff)
    qed
    from True Cons.prems(2) have mem: "task \<in> set remaining"
      by (auto split: if_splits)
    with True Cons.prems(2)
    have p: "level_pass rest (current_level @ [task]) (remove1 task remaining)
               = Inr (current_level', remaining')"
      by simp
    have sub: "S \<subseteq> set (remove1 task remaining)"
    proof
      fix x assume x: "x \<in> S"
      with notin have "x \<noteq> task" by auto
      moreover from x Cons.prems(1) have "x \<in> set remaining" by auto
      ultimately show "x \<in> set (remove1 task remaining)"
        by simp
    qed
    from Cons.IH [OF sub p] notin show ?thesis by auto
  qed
qed

lemma level_loop_blocked:
  assumes "\<And>t. t \<in> S \<Longrightarrow> \<exists>d \<in> set (dependencies t). d \<in> task_id ` S"
    and "S \<noteq> {}"
  shows "S \<subseteq> set remaining \<Longrightarrow> level_loop levels remaining = Inr final \<Longrightarrow>
         catch_all_phase remaining \<and> S \<subseteq> set (last final)"
proof (induction levels remaining rule: level_loop.induct)
  case (1 levels remaining)
  from "1.prems"(1) assms(2) have ne: "remaining \<noteq> []"
    by auto
  obtain current_level remaining' where
    p: "level_pass remaining [] remaining = Inr (current_level, remaining')"
    using level_pass_start [of remaining] by auto
  from level_pass_blocked [OF assms(1) "1.prems"(1) p]
  have sub: "S \<subseteq> set remaining'"
    by simp
  show ?case
  proof (cases "current_level = []")
    case True
    with ne p "1.prems"(2) have "final = levels @ [remaining']"
      by (simp add: level_loop.simps [of levels remaining])
    with ne p True sub show ?thesis
      by (simp add: catch_all_phase.simps [of remaining])
  next
    case False
    with ne p "1.prems"(2)
    have r: "level_loop (levels @ [current_level]) remaining' = Inr final"
      by (simp add: level_loop.simps [of levels remaining])
    from "1.IH" [OF ne p refl False sub r] ne p False show ?thesis
      by (simp add: catch_all_phase.simps [of remaining])
  qed
qed

subsection \<open>Phases and dependencies\<close>

text \<open>
  Claim C6. The claim asks that a task's phase comes strictly after the phase of each of
  its dependencies. The code does not do that: within one pass the test of a task's
  dependencies reads the live list, from which the same pass has already removed the
  tasks it extracted, so a task whose dependencies were extracted earlier in the pass
  joins their phase. For \<open>task_b\<close>, which depends on \<open>task_a\<close>, the leveling of
  \<open>[task_a, task_b]\<close> is the single phase \<open>[task_a, task_b]\<close>, marked as able to run in
  parallel; and the three-stage chain that \<open>decompose_task\<close> builds for the research task
  is leveled into one phase of three tasks.
\<close>

theorem dependent_tasks_share_a_phase:
  "dependencies task_b = [task_id task_a]
   \<and> level_loop [] [task_a, task_b] = Inr [[task_a, task_b]]
   \<and> generate_execution_plan [task_a, task_b]
       = Inr \<lparr>total_tasks = 2,
              phases = [\<lparr>phase = 1, tasks = [''first'', ''second''], can_run_parallel = True\<rparr>],
              parallel_tasks = [], critical_path = []\<rparr>
   \<and> map task_id (decompose_task example_uuid example_clock research_task 10)
       = [''s0'', ''s1'', ''s2'']
   \<and> map dependencies (decompose_task example_uuid example_clock research_task 10)
       = [[], [''s0''], [''s1'']]
   \<and> level_loop [] (decompose_task example_uuid example_clock research_task 10)
       = Inr [decompose_task example_uuid example_clock research_task 10]"
  by code_simp

subsection \<open>Termination and the catch-all phase\<close>

text \<open>
  Claim C7, as amended. For every list of sub-tasks, with or without a dependency cycle,
  the leveling returns, without an exception, after at most as many iterations as there
  are tasks (each iteration appends one phase), and its phases hold exactly the tasks of
  the list. An iteration that extracts no task puts all the remaining tasks into one
  final phase and ends the loop. Where a non-empty set of tasks of the list is such that
  each has a dependency on the id of a task of the set (the tasks of a cycle are such a
  set), the loop ends in this way and the set lies in the last phase. The plan consists
  of \<open>total_tasks\<close>, the phases, and the empty \<open>parallel_tasks\<close> and \<open>critical_path\<close>: it
  carries no flag for the degenerate case.
\<close>

theorem leveling_terminates_with_catch_all:
  "(\<exists>levels. level_loop [] tasks_in = Inr levels
       \<and> length levels \<le> length tasks_in
       \<and> mset (concat levels) = mset tasks_in
       \<and> generate_execution_plan tasks_in
           = Inr \<lparr>total_tasks = int (length tasks_in), phases = phase_entries levels,
                  parallel_tasks = [], critical_path = []\<rparr>
       \<and> (S \<noteq> {} \<and> S \<subseteq> set tasks_in
            \<and> (\<forall>t \<in> S. \<exists>d \<in> set (dependencies t). d \<in> task_id ` S)
          \<longrightarrow> catch_all_phase tasks_in \<and> S \<subseteq> set (last levels)))
   \<and> (remaining \<noteq> [] \<and> level_pass remaining [] remaining = Inr ([], remaining')
        \<longrightarrow> level_loop acc remaining = Inr (acc @ [remaining]) \<and> catch_all_phase remaining)"
proof -
  obtain levels where l: "level_loop [] tasks_in = Inr levels"
    and m: "mset (concat levels) = mset tasks_in"
    and n: "length levels \<le> length tasks_in"
    using level_loop_total [of "[]" tasks_in] by auto
  have plan: "generate_execution_plan tasks_in
           = Inr \<lparr>total_tasks = int (length tasks_in), phases = phase_entries levels,
                  parallel_tasks = [], critical_path = []\<rparr>"
    using l by (simp add: generate_execution_plan_def)
  have cyc: "S \<noteq> {} \<and> S \<subseteq> set tasks_in
            \<and> (\<forall>t \<in> S. \<exists>d \<in> set (dependencies t). d \<in> task_id ` S)
          \<longrightarrow> catch_all_phase tasks_in \<and> S \<subseteq> set (last levels)"
  proof (intro impI)
    assume a: "S \<noteq> {} \<and> S \<subseteq> set tasks_in
            \<and> (\<forall>t \<in> S. \<exists>d \<in> set (dependencies t). d \<in> task_id ` S)"
    then have blocked: "\<And>t. t \<in> S \<Longrightarrow> \<exists>d \<in> set (dependencies t). d \<in> task_id ` S"
      and ne: "S \<noteq> {}" and sub: "S \<subseteq> set tasks_in"
      by auto
    from blocked ne sub l show "catch_all_phase tasks_in \<and> S \<subseteq> set (last levels)"
      by (rule level_loop_blocked)
  qed
  have first: "\<exists>levels. level_loop [] tasks_in = Inr levels
       \<and> length levels \<le> length tasks_in
       \<and> mset (concat levels) = mset tasks_in
       \<and> generate_execution_plan tasks_in
           = Inr \<lparr>total_tasks = int (length tasks_in), phases = phase_entries levels,
                  parallel_tasks = [], critical_path = []\<rparr>
       \<and> (S \<noteq> {} \<and> S \<subseteq> set tasks_in
            \<and> (\<forall>t \<in> S. \<exists>d \<in> set (dependencies t). d \<in> task_id ` S)
          \<longrightarrow> catch_all_phase tasks_in \<and> S \<subseteq> set (last levels))"
    using l n m plan cyc by blast
  have second: "remaining \<noteq> [] \<and> level_pass remaining [] remaining = Inr ([], remaining')
        \<longrightarrow> level_loop acc remaining = Inr (acc @ [remaining]) \<and> catch_all_phase remaining"
  proof (intro impI)
    assume a: "remaining \<noteq> [] \<and> level_pass remaining [] remaining = Inr ([], remaining')"
    then have "remaining' = remaining"
      using level_pass_nothing [of remaining "[]" remaining remaining'] by simp
    with a show "level_loop acc remaining = Inr (acc @ [remaining]) \<and> catch_all_phase remaining"
      by (simp add: level_loop.simps [of acc remaining] catch_all_phase.simps [of remaining])
  qed
  from first second show ?thesis by blast
qed

theorem leveling_terminates_with_catch_all_witness:
  "{cyclic_a, cyclic_b} \<noteq> {}
   \<and> {cyclic_a, cyclic_b} \<subseteq> set [cyclic_a, cyclic_b]
   \<and> (\<exists>d \<in> set (dependencies cyclic_a). d \<in> task_id ` {cyclic_a, cyclic_b})
   \<and> (\<exists>d \<in> set (dependencies cyclic_b). d \<in> task_id ` {cyclic_a, cyclic_b})
   \<and> level_pass [cyclic_a, cyclic_b] [] [cyclic_a, cyclic_b] = Inr ([], [cyclic_a, cyclic_b])
   \<and> level_loop [] [cyclic_a, cyclic_b] = Inr [[cyclic_a, cyclic_b]]
   \<and> catch_all_phase [cyclic_a, cyclic_b]
   \<and> generate_execution_plan [cyclic_a, cyclic_b]
       = Inr \<lparr>total_tasks = 2, phases = phase_entries [[cyclic_a, cyclic_b]],
              parallel_tasks = [], critical_path = []\<rparr>"
proof -
  have da: "\<exists>d \<in> set (dependencies cyclic_a). d \<in> task_id ` {cyclic_a, cyclic_b}"
    and db: "\<exists>d \<in> set (dependencies cyclic_b). d \<in> task_id ` {cyclic_a, cyclic_b}"
    by (simp_all add: cyclic_a_def cyclic_b_def new_Task_def)
  have p: "level_pass [cyclic_a, cyclic_b] [] [cyclic_a, cyclic_b] = Inr ([], [cyclic_a, cyclic_b])"
    by code_simp
  have l: "level_loop [] [cyclic_a, cyclic_b] = Inr [[cyclic_a, cyclic_b]]"
    using p leveling_terminates_with_catch_all
            [where remaining = "[cyclic_a, cyclic_b]" and remaining' = "[cyclic_a, cyclic_b]"
               and acc = "[]" and tasks_in = "[]" and S = "{}"]
    by simp
  show ?thesis
    using da db p l
      leveling_terminates_with_catch_all
        [where tasks_in = "[cyclic_a, cyclic_b]" and S = "{cyclic_a, cyclic_b}"
           and remaining = "[cyclic_a, cyclic_b]" and remaining' = "[cyclic_a, cyclic_b]"
           and acc = "[]"]
    by auto
qed

text \<open>
  The claim as stated fails: the plan of the cyclic list is made of the four entries
  alone, and a list whose leveling ends in the catch-all branch gets the very plan of a
  list whose leveling does not, so nothing in a plan tells the degenerate case.
\<close>

theorem no_degenerate_flag_counterexample:
  "generate_execution_plan [cyclic_a, cyclic_b]
     = Inr \<lparr>total_tasks = 2,
            phases = [\<lparr>phase = 1, tasks = [''first'', ''second''], can_run_parallel = True\<rparr>],
            parallel_tasks = [], critical_path = []\<rparr>
   \<and> catch_all_phase [cyclic_a, cyclic_b]
   \<and> catch_all_phase [self_dependent]
   \<and> \<not> catch_all_phase [independent]
   \<and> generate_execution_plan [self_dependent] = generate_execution_plan [independent]"
  by code_simp

section \<open>Properties of the decomposition\<close>

text \<open>
  In each template the dependencies of a sub-task are ids of sub-tasks before it, and the
  ids of the sub-tasks are the ids drawn, in order.
\<close>

lemma research_backwards: "backwards uuid (decompose_research_task uuid now task)"
  by (simp add: backwards_def decompose_research_task_def new_Task_def Let_def All_less_Suc
        upt_rec eval_nat_numeral)

lemma development_backwards: "backwards uuid (decompose_development_task uuid now task)"
  by (simp add: backwards_def decompose_development_task_def new_Task_def Let_def All_less_Suc
        upt_rec eval_nat_numeral)

lemma scraping_backwards: "backwards uuid (decompose_scraping_task uuid now task)"
  by (simp add: backwards_def decompose_scraping_task_def new_Task_def Let_def All_less_Suc
        upt_rec eval_nat_numeral)

lemma content_backwards: "backwards uuid (decompose_content_task uuid now task)"
  by (simp add: backwards_def decompose_content_task_def new_Task_def Let_def All_less_Suc
        upt_rec eval_nat_numeral)

lemma generic_backwards: "backwards uuid (decompose_generic_task uuid now task)"
  by (simp add: backwards_def decompose_generic_task_def new_Task_def Let_def All_less_Suc
        upt_rec eval_nat_numeral)

lemma templates_backwards:
  "xs \<in> {decompose_research_task uuid now task, decompose_development_task uuid now task,
          decompose_scraping_task uuid now task, decompose_content_task uuid now task,
          decompose_generic_task uuid now task} \<Longrightarrow> backwards uuid xs"
  using research_backwards development_backwards scraping_backwards content_backwards
    generic_backwards
  by auto

lemma py_slice_to_take: "\<exists>k. py_slice_to xs n = take k xs"
  by (auto simp: py_slice_to_def)

lemma decompose_task_prefix:
  "\<exists>k xs. decompose_task uuid now task max_subtasks = take k xs
     \<and> xs \<in> {decompose_research_task uuid now task, decompose_development_task uuid now task,
              decompose_scraping_task uuid now task, decompose_content_task uuid now task,
              decompose_generic_task uuid now task}"
proof -
  let ?desc = "lower (description task)"
  let ?xs = "if any_keyword [''research'', ''analyze'', ''investigate''] ?desc
               then decompose_research_task uuid now task
             else if any_keyword [''build'', ''create'', ''develop'', ''code''] ?desc
               then decompose_development_task uuid now task
             else if any_keyword [''scrape'', ''extract'', ''collect''] ?desc
               then decompose_scraping_task uuid now task
             else if any_keyword [''write'', ''generate'', ''content''] ?desc
               then decompose_content_task uuid now task
             else decompose_generic_task uuid now task"
  have eq: "decompose_task uuid now task max_subtasks = py_slice_to ?xs max_subtasks"
    by (simp add: decompose_task_def Let_def)
  obtain k where k: "py_slice_to ?xs max_subtasks = take k ?xs"
    using py_slice_to_take by blast
  have mem: "?xs \<in> {decompose_research_task uuid now task, decompose_development_task uuid now task,
              decompose_scraping_task uuid now task, decompose_content_task uuid now task,
              decompose_generic_task uuid now task}"
    by simp
  show ?thesis
  proof (intro exI conjI)
    show "decompose_task uuid now task max_subtasks = take k ?xs"
      using eq k by simp
    show "?xs \<in> {decompose_research_task uuid now task, decompose_development_task uuid now task,
              decompose_scraping_task uuid now task, decompose_content_task uuid now task,
              decompose_generic_task uuid now task}"
      by (rule mem)
  qed
qed

lemma take_backwards:
  assumes "\<forall>i < length xs. set (dependencies (xs ! i)) \<subseteq> task_id ` set (take i xs)"
  shows "\<forall>i < length (take k xs).
           set (dependencies (take k xs ! i)) \<subseteq> task_id ` set (take i (take k xs))"
proof (intro allI impI)
  fix i assume i: "i < length (take k xs)"
  then have "i < length xs" and "i < k" by simp_all
  then have "take k xs ! i = xs ! i" and "take i (take k xs) = take i xs"
    by (simp_all add: min_def)
  with assms \<open>i < length xs\<close>
  show "set (dependencies (take k xs ! i)) \<subseteq> task_id ` set (take i (take k xs))"
    by simp
qed

text \<open>
  A list with distinct ids in which dependencies point backwards is extracted whole by
  the first pass of the leveling.
\<close>

lemma level_pass_extracts_all:
  "distinct (map task_id copy) \<Longrightarrow>
   (\<forall>i < length copy. \<forall>d \<in> set (dependencies (copy ! i)). d \<notin> task_id ` set (drop i copy)) \<Longrightarrow>
   level_pass copy current_level copy = Inr (current_level @ copy, [])"
proof (induction copy arbitrary: current_level)
  case Nil
  then show ?case by simp
next
  case (Cons task rest)
  from Cons.prems(2) have "\<forall>d \<in> set (dependencies task). d \<notin> task_id ` set (task # rest)"
    by fastforce
  then have free: "list_all (\<lambda>dep. dep \<notin> set (map task_id (task # rest))) (dependencies task)"
    by (simp add: list_all_iff)
  have d: "distinct (map task_id rest)"
    using Cons.prems(1) by simp
  have bk: "\<forall>i < length rest. \<forall>d \<in> set (dependencies (rest ! i)). d \<notin> task_id ` set (drop i rest)"
  proof (intro allI impI)
    fix i assume "i < length rest"
    then have "Suc i < length (task # rest)" by simp
    with Cons.prems(2)
    have "\<forall>d \<in> set (dependencies ((task # rest) ! Suc i)). d \<notin> task_id ` set (drop (Suc i) (task # rest))"
      by blast
    then show "\<forall>d \<in> set (dependencies (rest ! i)). d \<notin> task_id ` set (drop i rest)"
      by simp
  qed
  have "level_pass (task # rest) current_level (task # rest)
          = level_pass rest (current_level @ [task]) rest"
    using free by simp
  also have "\<dots> = Inr ((current_level @ [task]) @ rest, [])"
    using d bk by (rule Cons.IH)
  finally show ?case by simp
qed

lemma backwards_distinct_drop:
  assumes "distinct (map task_id xs)"
    and "\<forall>i < length xs. set (dependencies (xs ! i)) \<subseteq> task_id ` set (take i xs)"
  shows "\<forall>i < length xs. \<forall>d \<in> set (dependencies (xs ! i)). d \<notin> task_id ` set (drop i xs)"
proof (intro allI impI ballI)
  fix i d assume i: "i < length xs" and d: "d \<in> set (dependencies (xs ! i))"
  from assms(2) i d have "d \<in> task_id ` set (take i xs)"
    by blast
  then have a: "d \<in> set (take i (map task_id xs))"
    by (simp add: take_map)
  have "distinct (take i (map task_id xs) @ drop i (map task_id xs))"
    using assms(1) by simp
  then have "set (take i (map task_id xs)) \<inter> set (drop i (map task_id xs)) = {}"
    by (simp only: distinct_append)
  with a have "d \<notin> set (drop i (map task_id xs))"
    by blast
  then show "d \<notin> task_id ` set (drop i xs)"
    by (simp add: drop_map)
qed

lemma leveling_of_chain:
  assumes "distinct (map task_id xs)"
    and "\<forall>i < length xs. set (dependencies (xs ! i)) \<subseteq> task_id ` set (take i xs)"
  shows "level_loop [] xs = Inr (if xs = [] then [] else [xs]) \<and> \<not> catch_all_phase xs"
proof (cases "xs = []")
  case True
  then show ?thesis
    by (simp add: level_loop.simps [of "[]" "[]"] catch_all_phase.simps [of "[]"])
next
  case False
  have p: "level_pass xs [] xs = Inr ([] @ xs, [])"
    using assms(1) backwards_distinct_drop [OF assms] by (rule level_pass_extracts_all)
  with False show ?thesis
    by (simp add: level_loop.simps [of "[]" xs] level_loop.simps [of "[xs]" "[]"]
          catch_all_phase.simps [of xs] catch_all_phase.simps [of "[]"])
qed

lemma decompose_task_as_slice:
  "\<exists>xs. (\<forall>m. decompose_task uuid now task m = py_slice_to xs m) \<and> backwards uuid xs"
proof -
  let ?desc = "lower (description task)"
  let ?xs = "if any_keyword [''research'', ''analyze'', ''investigate''] ?desc
               then decompose_research_task uuid now task
             else if any_keyword [''build'', ''create'', ''develop'', ''code''] ?desc
               then decompose_development_task uuid now task
             else if any_keyword [''scrape'', ''extract'', ''collect''] ?desc
               then decompose_scraping_task uuid now task
             else if any_keyword [''write'', ''generate'', ''content''] ?desc
               then decompose_content_task uuid now task
             else decompose_generic_task uuid now task"
  have eq: "\<forall>m. decompose_task uuid now task m = py_slice_to ?xs m"
    by (simp add: decompose_task_def Let_def)
  have "backwards uuid ?xs"
    by (simp add: research_backwards development_backwards scraping_backwards
          content_backwards generic_backwards)
  with eq show ?thesis by blast
qed

lemma py_slice_to_length:
  "(0 \<le> n \<longrightarrow> int (length (py_slice_to xs n)) \<le> n)
   \<and> (n < 0 \<longrightarrow> length (py_slice_to xs n) = length xs - nat (- n))"
  by (auto simp: py_slice_to_def)

lemma uuids_distinct_prefix:
  assumes "distinct [uuid 0, uuid 1, uuid 2, uuid (3::nat)]" and "n \<le> 4"
  shows "distinct (map uuid [0..<n])"
proof -
  have four: "map uuid [0..<4] = [uuid 0, uuid 1, uuid 2, uuid 3]"
    by (simp add: upt_rec eval_nat_numeral)
  have "map uuid [0..<n] = take n (map uuid [0..<4])"
    using assms(2) by (simp add: take_map min_def)
  also have "distinct \<dots>"
    unfolding four using assms(1) by (rule distinct_take)
  finally show ?thesis .
qed

text \<open>
  Claim C10, as amended. For every input task and every bound \<open>max_subtasks \<ge> 0\<close> the
  list returned by \<open>decompose_task\<close> has at most \<open>max_subtasks\<close> elements; for a negative
  bound the slice drops the last \<open>-max_subtasks\<close> elements of the template's list instead.
  For every bound, each dependency of a returned sub-task is the id of a sub-task
  strictly before it in the returned list. When the ids drawn for the sub-tasks are
  distinct, the ids of the returned list are distinct, no non-empty set of returned tasks
  is closed under dependencies (there is no cycle), and the leveling of the returned list
  does not end in the catch-all branch: it puts the whole list into one phase.
\<close>

theorem decompose_task_forward_chain:
  "(0 \<le> max_subtasks \<longrightarrow> int (length (decompose_task uuid now task max_subtasks)) \<le> max_subtasks)
   \<and> (max_subtasks < 0 \<longrightarrow>
        length (decompose_task uuid now task max_subtasks)
          = length (decompose_task uuid now task 4) - nat (- max_subtasks))
   \<and> (\<forall>i < length (decompose_task uuid now task max_subtasks).
         set (dependencies (decompose_task uuid now task max_subtasks ! i))
           \<subseteq> task_id ` set (take i (decompose_task uuid now task max_subtasks)))
   \<and> (distinct [uuid 0, uuid 1, uuid 2, uuid 3] \<longrightarrow>
         distinct (map task_id (decompose_task uuid now task max_subtasks))
       \<and> level_loop [] (decompose_task uuid now task max_subtasks)
           = Inr (if decompose_task uuid now task max_subtasks = [] then []
                  else [decompose_task uuid now task max_subtasks])
       \<and> \<not> catch_all_phase (decompose_task uuid now task max_subtasks)
       \<and> \<not> (\<exists>S. S \<noteq> {} \<and> S \<subseteq> set (decompose_task uuid now task max_subtasks)
                \<and> (\<forall>t \<in> S. \<exists>d \<in> set (dependencies t). d \<in> task_id ` S)))"
proof -
  let ?r = "decompose_task uuid now task max_subtasks"
  obtain xs where sl: "\<forall>m. decompose_task uuid now task m = py_slice_to xs m"
    and bw: "backwards uuid xs"
    using decompose_task_as_slice by blast
  from bw have deps: "\<forall>i < length xs. set (dependencies (xs ! i)) \<subseteq> task_id ` set (take i xs)"
    and ids: "map task_id xs = map uuid [0..<length xs]" and len: "length xs \<le> 4"
    by (simp_all add: backwards_def)
  obtain k where k: "?r = take k xs"
    using sl py_slice_to_take [of xs max_subtasks] by auto
  have full: "decompose_task uuid now task 4 = xs"
    using sl len by (simp add: py_slice_to_def)
  have a: "0 \<le> max_subtasks \<longrightarrow> int (length ?r) \<le> max_subtasks"
    using sl py_slice_to_length [of max_subtasks xs] by simp
  have b: "max_subtasks < 0 \<longrightarrow>
        length ?r = length (decompose_task uuid now task 4) - nat (- max_subtasks)"
    unfolding full using sl py_slice_to_length [of max_subtasks xs] by simp
  have c: "\<forall>i < length ?r. set (dependencies (?r ! i)) \<subseteq> task_id ` set (take i ?r)"
    unfolding k using deps by (rule take_backwards)
  have d: "distinct [uuid 0, uuid 1, uuid 2, uuid 3] \<longrightarrow>
         distinct (map task_id ?r)
       \<and> level_loop [] ?r = Inr (if ?r = [] then [] else [?r])
       \<and> \<not> catch_all_phase ?r
       \<and> \<not> (\<exists>S. S \<noteq> {} \<and> S \<subseteq> set ?r \<and> (\<forall>t \<in> S. \<exists>d \<in> set (dependencies t). d \<in> task_id ` S))"
  proof (intro impI)
    assume u: "distinct [uuid 0, uuid 1, uuid 2, uuid 3]"
    have "distinct (map task_id xs)"
      unfolding ids using u len by (rule uuids_distinct_prefix)
    then have "distinct (take k (map task_id xs))"
      by (rule distinct_take)
    then have dist: "distinct (map task_id ?r)"
      unfolding k by (simp only: take_map)
    from leveling_of_chain [OF dist c]
    have lv: "level_loop [] ?r = Inr (if ?r = [] then [] else [?r])"
      and nc: "\<not> catch_all_phase ?r"
      by simp_all
    have acyclic: "\<not> (\<exists>S. S \<noteq> {} \<and> S \<subseteq> set ?r
                   \<and> (\<forall>t \<in> S. \<exists>d \<in> set (dependencies t). d \<in> task_id ` S))"
    proof
      assume "\<exists>S. S \<noteq> {} \<and> S \<subseteq> set ?r \<and> (\<forall>t \<in> S. \<exists>d \<in> set (dependencies t). d \<in> task_id ` S)"
      then obtain S where ne: "S \<noteq> {}" and sub: "S \<subseteq> set ?r"
        and blocked: "\<And>t. t \<in> S \<Longrightarrow> \<exists>d \<in> set (dependencies t). d \<in> task_id ` S"
        by blast
      from blocked ne sub lv have "catch_all_phase ?r"
        by (rule level_loop_blocked [THEN conjunct1])
      with nc show False by simp
    qed
    from dist lv nc acyclic
    show "distinct (map task_id ?r)
       \<and> level_loop [] ?r = Inr (if ?r = [] then [] else [?r])
       \<and> \<not> catch_all_phase ?r
       \<and> \<not> (\<exists>S. S \<noteq> {} \<and> S \<subseteq> set ?r \<and> (\<forall>t \<in> S. \<exists>d \<in> set (dependencies t). d \<in> task_id ` S))"
      by blast
  qed
  from a b c d show ?thesis by blast
qed

theorem decompose_task_forward_chain_witness:
  "(0::int) \<le> 2
   \<and> distinct [example_uuid 0, example_uuid 1, example_uuid 2, example_uuid 3]
   \<and> length (decompose_task example_uuid example_clock research_task 2) = 2
   \<and> map task_id (decompose_task example_uuid example_clock research_task 2) = [''s0'', ''s1'']
   \<and> map dependencies (decompose_task example_uuid example_clock research_task 2) = [[], [''s0'']]
   \<and> level_loop [] (decompose_task example_uuid example_clock research_task 2)
       = Inr [decompose_task example_uuid example_clock research_task 2]
   \<and> \<not> catch_all_phase (decompose_task example_uuid example_clock research_task 2)
   \<and> length (decompose_task example_uuid example_clock research_task (- 1)) = 2"
proof -
  have u: "distinct [example_uuid 0, example_uuid 1, example_uuid 2, example_uuid 3]"
    by (simp add: example_uuid_def)
  have e: "length (decompose_task example_uuid example_clock research_task 2) = 2"
    "map task_id (decompose_task example_uuid example_clock research_task 2) = [''s0'', ''s1'']"
    "map dependencies (decompose_task example_uuid example_clock research_task 2) = [[], [''s0'']]"
    "length (decompose_task example_uuid example_clock research_task 4) = 3"
    by code_simp+
  then have ne: "decompose_task example_uuid example_clock research_task 2 \<noteq> []"
    by auto
  show ?thesis
    using u e ne
      decompose_task_forward_chain [of 2 example_uuid example_clock research_task]
      decompose_task_forward_chain [of "- 1" example_uuid example_clock research_task]
    by simp
qed

text \<open>
  The claim as stated fails for a negative bound: with \<open>max_subtasks = -1\<close> the research
  task is decomposed into two sub-tasks, which is more than the bound.
\<close>

theorem negative_bound_counterexample:
  "map task_id (decompose_task example_uuid example_clock research_task (- 1)) = [''s0'', ''s1'']
   \<and> int (length (decompose_task example_uuid example_clock research_task (- 1))) = 2
   \<and> \<not> int (length (decompose_task example_uuid example_clock research_task (- 1))) \<le> - 1"
  by code_simp

section \<open>Properties of the priority assignment\<close>

lemma ex_nth_Cons:
  "(\<exists>j < Suc (length xs). (x # xs) ! j = r \<and> Q j)
     \<longleftrightarrow> (x = r \<and> Q 0) \<or> (\<exists>j < length xs. xs ! j = r \<and> Q (Suc j))"
proof
  assume "\<exists>j < Suc (length xs). (x # xs) ! j = r \<and> Q j"
  then obtain j where j: "j < Suc (length xs)" "(x # xs) ! j = r" "Q j" by blast
  show "(x = r \<and> Q 0) \<or> (\<exists>j < length xs. xs ! j = r \<and> Q (Suc j))"
  proof (cases j)
    case 0
    with j show ?thesis by simp
  next
    case (Suc j')
    with j have "j' < length xs \<and> xs ! j' = r \<and> Q (Suc j')" by simp
    then show ?thesis by blast
  qed
next
  assume "(x = r \<and> Q 0) \<or> (\<exists>j < length xs. xs ! j = r \<and> Q (Suc j))"
  then show "\<exists>j < Suc (length xs). (x # xs) ! j = r \<and> Q j"
  proof
    assume "x = r \<and> Q 0"
    then have "0 < Suc (length xs) \<and> (x # xs) ! 0 = r \<and> Q 0" by simp
    then show ?thesis by blast
  next
    assume "\<exists>j < length xs. xs ! j = r \<and> Q (Suc j)"
    then obtain j where "j < length xs" "xs ! j = r" "Q (Suc j)" by blast
    then have "Suc j < Suc (length xs) \<and> (x # xs) ! Suc j = r \<and> Q (Suc j)" by simp
    then show ?thesis by blast
  qed
qed

lemma assign_priorities_loop_effect:
  "task_obj (assign_priorities_loop n i ts h) r
     = (task_obj h r)\<lparr>priority := loop_priority n i ts h r\<rparr>
   \<and> agent_obj (assign_priorities_loop n i ts h) = agent_obj h
   \<and> agent_count (assign_priorities_loop n i ts h) = agent_count h"
proof (induction ts arbitrary: i h)
  case Nil
  then show ?case by (simp add: loop_priority_def)
next
  case (Cons t ts)
  let ?h1 = "if priority (task_obj h t) = MEDIUM then
          (if i < n div 3 then set_task h t ((task_obj h t)\<lparr>priority := HIGH\<rparr>)
           else if i > 2 * n div 3 then set_task h t ((task_obj h t)\<lparr>priority := LOW\<rparr>)
           else h)
        else h"
  have unfold: "assign_priorities_loop n i (t # ts) h = assign_priorities_loop n (Suc i) ts ?h1"
    by simp
  have IH: "task_obj (assign_priorities_loop n (Suc i) ts ?h1) r
     = (task_obj ?h1 r)\<lparr>priority := loop_priority n (Suc i) ts ?h1 r\<rparr>
   \<and> agent_obj (assign_priorities_loop n (Suc i) ts ?h1) = agent_obj ?h1
   \<and> agent_count (assign_priorities_loop n (Suc i) ts ?h1) = agent_count ?h1"
    by (rule Cons.IH)
  have frame: "agent_obj ?h1 = agent_obj h \<and> agent_count ?h1 = agent_count h"
    by (simp add: set_task_def)
  have other: "r \<noteq> t \<Longrightarrow> task_obj ?h1 r = task_obj h r"
    by (simp add: set_task_def)
  have key: "(task_obj ?h1 r)\<lparr>priority := loop_priority n (Suc i) ts ?h1 r\<rparr>
           = (task_obj h r)\<lparr>priority := loop_priority n i (t # ts) h r\<rparr>"
  proof (cases "r = t")
    case False
    then have neq: "t \<noteq> r" by simp
    have e1: "(\<exists>j < length (t # ts). (t # ts) ! j = r \<and> i + j < n div 3)
                \<longleftrightarrow> (\<exists>j < length ts. ts ! j = r \<and> Suc i + j < n div 3)"
      using neq by (simp add: ex_nth_Cons)
    have e2: "(\<exists>j < length (t # ts). (t # ts) ! j = r \<and> i + j > 2 * n div 3)
                \<longleftrightarrow> (\<exists>j < length ts. ts ! j = r \<and> Suc i + j > 2 * n div 3)"
      using neq by (simp add: ex_nth_Cons)
    have "loop_priority n (Suc i) ts ?h1 r = loop_priority n i (t # ts) h r"
      unfolding loop_priority_def e1 e2 other [OF False] by (rule refl)
    then show ?thesis using other [OF False] by simp
  next
    case True
    show ?thesis
    proof (cases "priority (task_obj h t) = MEDIUM")
      case notdefault: False
      then show ?thesis
        unfolding True by (simp add: loop_priority_def)
    next
      case medium: True
      have nohigh: "\<not> i < n div 3 \<Longrightarrow>
          \<not> (\<exists>j < length ts. ts ! j = t \<and> Suc i + j < n div 3)
          \<and> \<not> (\<exists>j < length (t # ts). (t # ts) ! j = t \<and> i + j < n div 3)"
        by auto
      have at0: "\<And>Q. Q 0 \<Longrightarrow> \<exists>j < length (t # ts). (t # ts) ! j = t \<and> Q j"
      proof -
        fix Q :: "nat \<Rightarrow> bool" assume "Q 0"
        then have "0 < length (t # ts) \<and> (t # ts) ! 0 = t \<and> Q 0" by simp
        then show "\<exists>j < length (t # ts). (t # ts) ! j = t \<and> Q j" by blast
      qed
      consider (first) "i < n div 3" | (last) "\<not> i < n div 3" "i > 2 * n div 3"
        | (middle) "\<not> i < n div 3" "\<not> i > 2 * n div 3"
        by blast
      then show ?thesis
      proof cases
        case first
        have h1: "task_obj ?h1 t = (task_obj h t)\<lparr>priority := HIGH\<rparr>"
          using first medium by (simp add: set_task_def)
        have "\<exists>j < length (t # ts). (t # ts) ! j = t \<and> i + j < n div 3"
          using first by (intro at0) simp
        then have new: "loop_priority n i (t # ts) h t = HIGH"
          unfolding loop_priority_def using medium by (simp only: if_True if_False simp_thms)
        have "loop_priority n (Suc i) ts ?h1 t = HIGH"
          unfolding loop_priority_def h1 by simp
        with new h1 show ?thesis
          unfolding True by simp
      next
        case last
        have h1: "task_obj ?h1 t = (task_obj h t)\<lparr>priority := LOW\<rparr>"
          using last medium by (simp add: set_task_def)
        have "\<exists>j < length (t # ts). (t # ts) ! j = t \<and> i + j > 2 * n div 3"
          using last by (intro at0) simp
        with nohigh [OF last(1)] have new: "loop_priority n i (t # ts) h t = LOW"
          unfolding loop_priority_def using medium by (simp only: if_True if_False simp_thms)
        have "loop_priority n (Suc i) ts ?h1 t = LOW"
          unfolding loop_priority_def h1 by simp
        with new h1 show ?thesis
          unfolding True by simp
      next
        case middle
        have h1: "?h1 = h"
          using middle medium by simp
        have low: "(\<exists>j < length (t # ts). (t # ts) ! j = t \<and> i + j > 2 * n div 3)
                \<longleftrightarrow> (\<exists>j < length ts. ts ! j = t \<and> Suc i + j > 2 * n div 3)"
          using middle(2) by (simp add: ex_nth_Cons)
        have "loop_priority n (Suc i) ts h t = loop_priority n i (t # ts) h t"
          unfolding loop_priority_def low using nohigh [OF middle(1)]
          by (simp only: if_True if_False simp_thms)
        then show ?thesis
          unfolding True h1 by simp
      qed
    qed
  qed
  from IH frame key show ?case
    unfolding unfold by simp
qed

lemma nth_unique:
  assumes "distinct xs" and "i < length xs"
  shows "(\<exists>j < length xs. xs ! j = xs ! i \<and> Q j) \<longleftrightarrow> Q i"
proof
  assume "\<exists>j < length xs. xs ! j = xs ! i \<and> Q j"
  then obtain j where j: "j < length xs" "xs ! j = xs ! i" "Q j" by blast
  with assms have "j = i" by (simp add: nth_eq_iff_index_eq)
  with j(3) show "Q i" by simp
next
  assume "Q i"
  with assms(2) show "\<exists>j < length xs. xs ! j = xs ! i \<and> Q j" by blast
qed

text \<open>
  Claim C8, as amended. \<open>assign_priorities\<close> changes nothing but priorities, and only of
  tasks whose priority is \<open>MEDIUM\<close>: such a task becomes \<open>HIGH\<close> when it stands at a position
  \<open>j < len div 3\<close> of the workflow, otherwise \<open>LOW\<close> when it stands at a position
  \<open>j > (2 * len) div 3\<close>, and keeps \<open>MEDIUM\<close> otherwise; a task with another priority is
  never changed. For a workflow without repeated objects this is, position by position,
  \<open>HIGH\<close> for \<open>i < len div 3\<close>, \<open>LOW\<close> for \<open>i > (2 * len) div 3\<close> and \<open>MEDIUM\<close> between. The
  returned list is the workflow sorted stably by priority value descending and then by
  the number of dependencies ascending, both read after the changes.
\<close>

theorem assign_priorities_thirds:
  "(\<forall>r. task_obj (snd (assign_priorities h workflow)) r
          = (task_obj h r)\<lparr>priority :=
               (if priority (task_obj h r) \<noteq> MEDIUM then priority (task_obj h r)
                else if \<exists>j < length workflow. workflow ! j = r \<and> j < length workflow div 3
                  then HIGH
                else if \<exists>j < length workflow. workflow ! j = r \<and> j > 2 * length workflow div 3
                  then LOW
                else MEDIUM)\<rparr>)
   \<and> (\<forall>r. priority (task_obj h r) \<noteq> MEDIUM
          \<longrightarrow> task_obj (snd (assign_priorities h workflow)) r = task_obj h r)
   \<and> (distinct workflow \<longrightarrow>
        (\<forall>i < length workflow. priority (task_obj h (workflow ! i)) = MEDIUM \<longrightarrow>
           priority (task_obj (snd (assign_priorities h workflow)) (workflow ! i))
             = (if i < length workflow div 3 then HIGH
                else if i > 2 * length workflow div 3 then LOW
                else MEDIUM)))
   \<and> sorted (map (priority_key (snd (assign_priorities h workflow)))
                (fst (assign_priorities h workflow)))
   \<and> (\<forall>i j. i < j \<and> j < length (fst (assign_priorities h workflow)) \<longrightarrow>
         priority_value (priority (task_obj (snd (assign_priorities h workflow))
                                    (fst (assign_priorities h workflow) ! j)))
           < priority_value (priority (task_obj (snd (assign_priorities h workflow))
                                        (fst (assign_priorities h workflow) ! i)))
         \<or> priority_value (priority (task_obj (snd (assign_priorities h workflow))
                                       (fst (assign_priorities h workflow) ! j)))
              = priority_value (priority (task_obj (snd (assign_priorities h workflow))
                                           (fst (assign_priorities h workflow) ! i)))
           \<and> length (dependencies (task_obj (snd (assign_priorities h workflow))
                                      (fst (assign_priorities h workflow) ! i)))
               \<le> length (dependencies (task_obj (snd (assign_priorities h workflow))
                                          (fst (assign_priorities h workflow) ! j))))
   \<and> mset (fst (assign_priorities h workflow)) = mset workflow
   \<and> (\<forall>k. filter (\<lambda>t. priority_key (snd (assign_priorities h workflow)) t = k)
               (fst (assign_priorities h workflow))
            = filter (\<lambda>t. priority_key (snd (assign_priorities h workflow)) t = k) workflow)"
proof -
  let ?n = "length workflow"
  let ?h' = "snd (assign_priorities h workflow)"
  let ?p = "fst (assign_priorities h workflow)"
  have h': "?h' = assign_priorities_loop ?n 0 workflow h"
    and p: "?p = sort_key (priority_key ?h') workflow"
    by (simp_all add: assign_priorities_def Let_def)
  have eff: "\<And>r. task_obj ?h' r = (task_obj h r)\<lparr>priority := loop_priority ?n 0 workflow h r\<rparr>"
    unfolding h' using assign_priorities_loop_effect [of ?n 0 workflow h] by simp
  have c1: "\<forall>r. task_obj ?h' r
          = (task_obj h r)\<lparr>priority :=
               (if priority (task_obj h r) \<noteq> MEDIUM then priority (task_obj h r)
                else if \<exists>j < ?n. workflow ! j = r \<and> j < ?n div 3 then HIGH
                else if \<exists>j < ?n. workflow ! j = r \<and> j > 2 * ?n div 3 then LOW
                else MEDIUM)\<rparr>"
    using eff by (simp add: loop_priority_def)
  have c2: "\<forall>r. priority (task_obj h r) \<noteq> MEDIUM \<longrightarrow> task_obj ?h' r = task_obj h r"
    using eff by (simp add: loop_priority_def)
  have c3: "distinct workflow \<longrightarrow>
        (\<forall>i < ?n. priority (task_obj h (workflow ! i)) = MEDIUM \<longrightarrow>
           priority (task_obj ?h' (workflow ! i))
             = (if i < ?n div 3 then HIGH else if i > 2 * ?n div 3 then LOW else MEDIUM))"
  proof (intro impI allI)
    fix i assume d: "distinct workflow" and i: "i < ?n"
      and m: "priority (task_obj h (workflow ! i)) = MEDIUM"
    have "priority (task_obj ?h' (workflow ! i)) = loop_priority ?n 0 workflow h (workflow ! i)"
      by (simp add: eff)
    also have "\<dots> = (if i < ?n div 3 then HIGH else if i > 2 * ?n div 3 then LOW else MEDIUM)"
      unfolding loop_priority_def
      using m nth_unique [OF d i, of "\<lambda>j. 0 + j < ?n div 3"]
        nth_unique [OF d i, of "\<lambda>j. 0 + j > 2 * ?n div 3"]
      by simp
    finally show "priority (task_obj ?h' (workflow ! i))
             = (if i < ?n div 3 then HIGH else if i > 2 * ?n div 3 then LOW else MEDIUM)" .
  qed
  have c4: "sorted (map (priority_key ?h') ?p)"
    unfolding p by (rule sorted_sort_key)
  have c5: "\<forall>i j. i < j \<and> j < length ?p \<longrightarrow>
         priority_value (priority (task_obj ?h' (?p ! j)))
           < priority_value (priority (task_obj ?h' (?p ! i)))
         \<or> priority_value (priority (task_obj ?h' (?p ! j)))
              = priority_value (priority (task_obj ?h' (?p ! i)))
           \<and> length (dependencies (task_obj ?h' (?p ! i)))
               \<le> length (dependencies (task_obj ?h' (?p ! j)))"
  proof (intro allI impI)
    fix i j assume ij: "i < j \<and> j < length ?p"
    then have "map (priority_key ?h') ?p ! i \<le> map (priority_key ?h') ?p ! j"
      using c4 by (simp add: sorted_iff_nth_mono)
    then have "priority_key ?h' (?p ! i) \<le> priority_key ?h' (?p ! j)"
      using ij by simp
    then show "priority_value (priority (task_obj ?h' (?p ! j)))
           < priority_value (priority (task_obj ?h' (?p ! i)))
         \<or> priority_value (priority (task_obj ?h' (?p ! j)))
              = priority_value (priority (task_obj ?h' (?p ! i)))
           \<and> length (dependencies (task_obj ?h' (?p ! i)))
               \<le> length (dependencies (task_obj ?h' (?p ! j)))"
      by (auto simp: priority_key_def less_eq_prod_def)
  qed
  have c6: "mset ?p = mset workflow"
    unfolding p by simp
  have c7: "\<forall>k. filter (\<lambda>t. priority_key ?h' t = k) ?p
               = filter (\<lambda>t. priority_key ?h' t = k) workflow"
    unfolding p by (simp add: sort_key_stable)
  from c1 c2 c3 c4 c5 c6 c7 show ?thesis by blast
qed

theorem assign_priorities_thirds_witness:
  "distinct [0, 1, 2, 3::nat]
   \<and> map (\<lambda>r. priority (task_obj priority_heap r)) [0, 1, 2, 3] = [MEDIUM, MEDIUM, CRITICAL, MEDIUM]
   \<and> map (\<lambda>r. priority (task_obj (snd (assign_priorities priority_heap [0, 1, 2, 3])) r)) [0, 1, 2, 3]
       = [HIGH, MEDIUM, CRITICAL, LOW]
   \<and> fst (assign_priorities priority_heap [0, 1, 2, 3]) = [2, 0, 1, 3]
   \<and> sorted (map (priority_key (snd (assign_priorities priority_heap [0, 1, 2, 3])))
                (fst (assign_priorities priority_heap [0, 1, 2, 3])))"
proof -
  have e: "map (\<lambda>r. priority (task_obj priority_heap r)) [0, 1, 2, 3]
             = [MEDIUM, MEDIUM, CRITICAL, MEDIUM]"
    "fst (assign_priorities priority_heap [0, 1, 2, 3]) = [2, 0, 1, 3]"
    by code_simp+
  have d: "distinct [0, 1, 2, 3::nat]"
    by simp
  have t: "\<forall>i < length [0, 1, 2, 3::nat]. priority (task_obj priority_heap ([0, 1, 2, 3] ! i)) = MEDIUM \<longrightarrow>
           priority (task_obj (snd (assign_priorities priority_heap [0, 1, 2, 3])) ([0, 1, 2, 3] ! i))
             = (if i < length [0, 1, 2, 3::nat] div 3 then HIGH
                else if i > 2 * length [0, 1, 2, 3::nat] div 3 then LOW
                else MEDIUM)"
    and u: "\<forall>r. priority (task_obj priority_heap r) \<noteq> MEDIUM
          \<longrightarrow> task_obj (snd (assign_priorities priority_heap [0, 1, 2, 3])) r
               = task_obj priority_heap r"
    and s: "sorted (map (priority_key (snd (assign_priorities priority_heap [0, 1, 2, 3])))
                (fst (assign_priorities priority_heap [0, 1, 2, 3])))"
    using assign_priorities_thirds [of priority_heap "[0, 1, 2, 3]"] d by blast+
  have p0: "priority (task_obj (snd (assign_priorities priority_heap [0, 1, 2, 3])) 0) = HIGH"
    using t [rule_format, of 0] e(1) by simp
  have p1: "priority (task_obj (snd (assign_priorities priority_heap [0, 1, 2, 3])) 1) = MEDIUM"
    using t [rule_format, of 1] e(1) by simp
  have p3: "priority (task_obj (snd (assign_priorities priority_heap [0, 1, 2, 3])) 3) = LOW"
    using t [rule_format, of 3] e(1) by simp
  have p2: "priority (task_obj (snd (assign_priorities priority_heap [0, 1, 2, 3])) 2) = CRITICAL"
    using u [rule_format, of 2] e(1) by simp
  from d e p0 p1 p2 p3 s show ?thesis by simp
qed

text \<open>
  The claim as stated fails at the boundary of the last third: in a workflow of three
  default-priority tasks the task at the last position keeps \<open>MEDIUM\<close>, and in one of six
  the task at position 4 does.
\<close>

theorem last_third_boundary_counterexample:
  "map (\<lambda>r. priority (task_obj priority_heap r)) [0, 1, 3] = [MEDIUM, MEDIUM, MEDIUM]
   \<and> map (\<lambda>r. priority (task_obj (snd (assign_priorities priority_heap [0, 1, 3])) r)) [0, 1, 3]
       = [HIGH, MEDIUM, MEDIUM]
   \<and> map (\<lambda>r. priority (task_obj priority_heap r)) [0, 1, 3, 4, 5, 6]
       = [MEDIUM, MEDIUM, MEDIUM, MEDIUM, MEDIUM, MEDIUM]
   \<and> map (\<lambda>r. priority (task_obj (snd (assign_priorities priority_heap [0, 1, 3, 4, 5, 6])) r))
         [0, 1, 3, 4, 5, 6]
       = [HIGH, HIGH, MEDIUM, MEDIUM, MEDIUM, LOW]"
  by code_simp

end
